theory Spec2Isabelle
  imports Complex_Main "HOL-Library.Multiset"
begin

section \<open>JavaScript values used by the Bar component\<close>

text \<open>
  A JavaScript \<open>Date\<close> holds a time value: a whole number of milliseconds since the
  epoch, of magnitude at most 8640000000000000, or NaN (an invalid date).
\<close>

datatype jsdate = InvalidDate | Date int

text \<open>
  The numbers the component computes with are time values, their differences, and the
  results of \<open>Math.min\<close> and \<open>Math.max\<close>: whole numbers, the two infinities and NaN.
\<close>

datatype jsnum = NaN | NegInf | Num int | PosInf

definition MAX_TIME :: int where
  "MAX_TIME = 8640000000000000"

text \<open>\<open>new Date(value)\<close> for a number: TimeClip maps every value out of range to NaN.\<close>

fun new_Date :: "jsnum \<Rightarrow> jsdate" where
  "new_Date (Num t) = (if \<bar>t\<bar> \<le> MAX_TIME then Date t else InvalidDate)"
| "new_Date NaN = InvalidDate"
| "new_Date NegInf = InvalidDate"
| "new_Date PosInf = InvalidDate"

text \<open>\<open>d.getTime()\<close>.\<close>

fun getTime :: "jsdate \<Rightarrow> jsnum" where
  "getTime (Date t) = Num t"
| "getTime InvalidDate = NaN"

text \<open>The time value of a valid date as a whole number, for stating orderings.\<close>

fun timeValue :: "jsdate \<Rightarrow> int" where
  "timeValue (Date t) = t"
| "timeValue InvalidDate = 0"

text \<open>
  \<open>a >= b\<close> and \<open>a <= b\<close> on two dates compare the time values as numbers; a
  comparison with NaN on either side is false.
\<close>

fun date_ge :: "jsdate \<Rightarrow> jsdate \<Rightarrow> bool" where
  "date_ge (Date a) (Date b) = (a \<ge> b)"
| "date_ge _ _ = False"

fun date_le :: "jsdate \<Rightarrow> jsdate \<Rightarrow> bool" where
  "date_le (Date a) (Date b) = (a \<le> b)"
| "date_le _ _ = False"

subsection \<open>Parsing a date string\<close>

text \<open>
  \<open>new Date(text)\<close> reads a text in the language's date-time string format,
  \<open>YYYY-MM-DDTHH:mm:ss.sssZ\<close>. The date-only forms \<open>YYYY\<close>, \<open>YYYY-MM\<close> and
  \<open>YYYY-MM-DD\<close> are read as midnight UTC. The date-time forms add \<open>THH:mm\<close>,
  \<open>THH:mm:ss\<close> or \<open>THH:mm:ss.sss\<close> and then, optionally, \<open>Z\<close> or an offset
  \<open>+HH:mm\<close> or \<open>-HH:mm\<close>; without one they are read as local time. A year is four
  digits, or a sign and six digits. A text that is not an instance of the format is left
  to the host, which may recognise it by its own rules or give an invalid date. Parsing
  never raises.
\<close>

definition is_digit :: "char \<Rightarrow> bool" where
  "is_digit c = (c \<in> set ''0123456789'')"

definition digit_val :: "char \<Rightarrow> int" where
  "digit_val c = int (of_char c) - 48"

definition number_of :: "string \<Rightarrow> int" where
  "number_of s = foldl (\<lambda>n c. 10 * n + digit_val c) 0 s"

definition leap_year :: "int \<Rightarrow> bool" where
  "leap_year y = (y mod 4 = 0 \<and> (y mod 100 \<noteq> 0 \<or> y mod 400 = 0))"

definition days_in_month :: "int \<Rightarrow> int \<Rightarrow> int" where
  "days_in_month y m =
     (if m = 2 then (if leap_year y then 29 else 28)
      else if m \<in> {4, 6, 9, 11} then 30 else 31)"

text \<open>The day number of a calendar day, counted from 1970-01-01.\<close>

definition days_from_civil :: "int \<Rightarrow> int \<Rightarrow> int \<Rightarrow> int" where
  "days_from_civil y m d =
     (let y' = (if m \<le> 2 then y - 1 else y);
          era = y' div 400;
          yoe = y' - era * 400;
          mp = (m + 9) mod 12;
          doy = (153 * mp + 2) div 5 + d - 1;
          doe = yoe * 365 + yoe div 4 - yoe div 100 + doy
      in era * 146097 + doe - 719468)"

definition msPerDay :: int where
  "msPerDay = 86400000"

text \<open>The first \<open>n\<close> characters as a number, when they are all digits, and the rest.\<close>

definition take_digits :: "nat \<Rightarrow> string \<Rightarrow> (int \<times> string) option" where
  "take_digits n s =
     (if n \<le> length s \<and> list_all is_digit (take n s)
      then Some (number_of (take n s), drop n s)
      else None)"

text \<open>The character \<open>c\<close> and then \<open>n\<close> digits.\<close>

definition field_after :: "char \<Rightarrow> nat \<Rightarrow> string \<Rightarrow> (int \<times> string) option" where
  "field_after c n s =
     (case s of
        [] \<Rightarrow> None
      | x # xs \<Rightarrow> if x = c then take_digits n xs else None)"

text \<open>A year: four digits, or a sign and six digits, where \<open>-000000\<close> is not a year.\<close>

definition parse_year :: "string \<Rightarrow> (int \<times> string) option" where
  "parse_year s =
     (case s of
        [] \<Rightarrow> None
      | c # cs \<Rightarrow>
          if c = CHR ''+'' then take_digits 6 cs
          else if c = CHR ''-'' then
            (case take_digits 6 cs of
               None \<Rightarrow> None
             | Some (y, rest) \<Rightarrow> if y = 0 then None else Some (- y, rest))
          else take_digits 4 s)"

text \<open>The date-only form at the front of a text; an absent month or day is 1.\<close>

definition parse_date_part :: "string \<Rightarrow> (int \<times> int \<times> int \<times> string) option" where
  "parse_date_part s =
     (case parse_year s of
        None \<Rightarrow> None
      | Some (y, r1) \<Rightarrow>
          (case field_after CHR ''-'' 2 r1 of
             None \<Rightarrow> Some (y, 1, 1, r1)
           | Some (m, r2) \<Rightarrow>
               (case field_after CHR ''-'' 2 r2 of
                  None \<Rightarrow> Some (y, m, 1, r2)
                | Some (d, r3) \<Rightarrow> Some (y, m, d, r3))))"

text \<open>
  The milliseconds into the day of a time of day. The hour 24 stands for the midnight
  that ends the day and goes only with zero minutes, seconds and milliseconds.
\<close>

definition time_of_day :: "int \<Rightarrow> int \<Rightarrow> int \<Rightarrow> int \<Rightarrow> string \<Rightarrow> (int \<times> string) option" where
  "time_of_day h mi sec ms rest =
     (if (h \<le> 23 \<and> mi \<le> 59 \<and> sec \<le> 59) \<or> (h = 24 \<and> mi = 0 \<and> sec = 0 \<and> ms = 0)
      then Some (h * 3600000 + mi * 60000 + sec * 1000 + ms, rest)
      else None)"

definition parse_time_part :: "string \<Rightarrow> (int \<times> string) option" where
  "parse_time_part s =
     (case field_after CHR ''T'' 2 s of
        None \<Rightarrow> None
      | Some (h, r1) \<Rightarrow>
          (case field_after CHR '':'' 2 r1 of
             None \<Rightarrow> None
           | Some (mi, r2) \<Rightarrow>
               (case field_after CHR '':'' 2 r2 of
                  None \<Rightarrow> time_of_day h mi 0 0 r2
                | Some (sec, r3) \<Rightarrow>
                    (case field_after CHR ''.'' 3 r3 of
                       None \<Rightarrow> time_of_day h mi sec 0 r3
                     | Some (ms, r4) \<Rightarrow> time_of_day h mi sec ms r4))))"

text \<open>
  What is left after the time: nothing, and the time is local, \<open>zone\<close> ms ahead of
  UTC; or \<open>Z\<close>; or a signed offset. The result is how far the time is ahead of UTC.
\<close>

definition parse_offset :: "int \<Rightarrow> string \<Rightarrow> int option" where
  "parse_offset zone s =
     (case s of
        [] \<Rightarrow> Some zone
      | c # cs \<Rightarrow>
          if c = CHR ''Z'' then (if cs = [] then Some 0 else None)
          else if c = CHR ''+'' \<or> c = CHR ''-'' then
            (case take_digits 2 cs of
               None \<Rightarrow> None
             | Some (oh, r1) \<Rightarrow>
                 (case field_after CHR '':'' 2 r1 of
                    None \<Rightarrow> None
                  | Some (om, r2) \<Rightarrow>
                      if r2 = [] \<and> oh \<le> 23 \<and> om \<le> 59
                      then Some ((if c = CHR ''-'' then - 1 else 1) * ((oh * 60 + om) * 60000))
                      else None))
          else None)"

text \<open>The time value of an instance of the format; \<open>None\<close> for any other text.\<close>

definition parse_format :: "int \<Rightarrow> string \<Rightarrow> int option" where
  "parse_format zone s =
     (case parse_date_part s of
        None \<Rightarrow> None
      | Some (y, m, d, rest) \<Rightarrow>
          if 1 \<le> m \<and> m \<le> 12 \<and> 1 \<le> d \<and> d \<le> days_in_month y m
          then
            (if rest = [] then Some (days_from_civil y m d * msPerDay)
             else
               (case parse_time_part rest of
                  None \<Rightarrow> None
                | Some (t, rest') \<Rightarrow>
                    (case parse_offset zone rest' of
                       None \<Rightarrow> None
                     | Some ahead \<Rightarrow> Some (days_from_civil y m d * msPerDay + t - ahead))))
          else None)"

text \<open>
  \<open>zone\<close> is how far the host's local time is ahead of UTC, in ms, and \<open>heuristics\<close>
  is what the host makes of a text outside the format.
\<close>

definition Date_parse :: "int \<Rightarrow> (string \<Rightarrow> jsdate) \<Rightarrow> string \<Rightarrow> jsdate" where
  "Date_parse zone heuristics s =
     (case parse_format zone s of
        Some t \<Rightarrow> new_Date (Num t)
      | None \<Rightarrow> heuristics s)"

text \<open>
  A host that recognises nothing outside the format, which the language allows: every
  other text is an invalid date.
\<close>

definition no_heuristics :: "string \<Rightarrow> jsdate" where
  "no_heuristics s = InvalidDate"

section \<open>The component's data and state\<close>

record DateCell =
  id_cell :: string
  timestamp :: jsdate

text \<open>
  The state of \<open>Bar\<close>: the generated grid (\<open>useLargeGrid\<close>), and the three
  \<open>useState\<close> cells.
\<close>

record BarState =
  fullGrid :: "DateCell list list"
  filteredCells :: "DateCell list"
  page :: int
  sortAsc :: bool

definition PAGE_SIZE :: int where
  "PAGE_SIZE = 20"

text \<open>\<open>fullGrid.flat()\<close>.\<close>

definition flatCells :: "BarState \<Rightarrow> DateCell list" where
  "flatCells st = concat (fullGrid st)"

text \<open>
  The state once the grid has been generated: the effect on \<open>fullGrid\<close> has stored the
  flattened grid, \<open>page\<close> is 1 and \<open>sortAsc\<close> is true.
\<close>

definition initialState :: "DateCell list list \<Rightarrow> BarState" where
  "initialState grid =
     \<lparr>fullGrid = grid, filteredCells = concat grid, page = 1, sortAsc = True\<rparr>"

section \<open>Filtering\<close>

text \<open>
  \<open>parse\<close> is the host's \<open>new Date(text)\<close>. A string is truthy exactly when it is
  not empty.
\<close>

definition startDate :: "(string \<Rightarrow> jsdate) \<Rightarrow> string \<Rightarrow> jsdate" where
  "startDate parse start = (if start \<noteq> [] then parse start else new_Date (Num 0))"

definition endDate :: "(string \<Rightarrow> jsdate) \<Rightarrow> string \<Rightarrow> jsdate" where
  "endDate parse end =
     (if end \<noteq> [] then parse end else new_Date (Num 8640000000000000))"

definition handleFilter :: "(string \<Rightarrow> jsdate) \<Rightarrow> BarState \<Rightarrow> string \<Rightarrow> string \<Rightarrow> BarState" where
  "handleFilter parse st start end =
     (let filtered =
            filter (\<lambda>cell. date_ge (timestamp cell) (startDate parse start)
                          \<and> date_le (timestamp cell) (endDate parse end))
                   (flatCells st)
      in st\<lparr>filteredCells := filtered, page := 1\<rparr>)"

section \<open>Sorting\<close>

text \<open>Subtraction of two numbers.\<close>

fun js_minus :: "jsnum \<Rightarrow> jsnum \<Rightarrow> jsnum" where
  "js_minus (Num a) (Num b) = Num (a - b)"
| "js_minus NaN _ = NaN"
| "js_minus _ NaN = NaN"
| "js_minus PosInf PosInf = NaN"
| "js_minus NegInf NegInf = NaN"
| "js_minus PosInf _ = PosInf"
| "js_minus NegInf _ = NegInf"
| "js_minus (Num a) PosInf = NegInf"
| "js_minus (Num a) NegInf = PosInf"

text \<open>
  \<open>Array.prototype.sort\<close> with a comparator looks only at the sign of the comparator's
  result and reads NaN as zero. It is stable: of two elements that compare as zero, the
  one that came first stays first. For a consistent comparator this fixes the result,
  which the model builds by stable insertion from the right.
\<close>

fun positive :: "jsnum \<Rightarrow> bool" where
  "positive (Num v) = (v > 0)"
| "positive PosInf = True"
| "positive NegInf = False"
| "positive NaN = False"

fun insert_sorted :: "('a \<Rightarrow> 'a \<Rightarrow> jsnum) \<Rightarrow> 'a \<Rightarrow> 'a list \<Rightarrow> 'a list" where
  "insert_sorted comparefn x [] = [x]"
| "insert_sorted comparefn x (y # ys) =
     (if positive (comparefn x y) then y # insert_sorted comparefn x ys else x # y # ys)"

definition Array_sort :: "('a \<Rightarrow> 'a \<Rightarrow> jsnum) \<Rightarrow> 'a list \<Rightarrow> 'a list" where
  "Array_sort comparefn xs = foldr (insert_sorted comparefn) xs []"

definition handleSortToggle :: "BarState \<Rightarrow> BarState" where
  "handleSortToggle st =
     (let sorted =
            Array_sort
              (\<lambda>a b. if sortAsc st
                     then js_minus (getTime (timestamp b)) (getTime (timestamp a))
                     else js_minus (getTime (timestamp a)) (getTime (timestamp b)))
              (filteredCells st)
      in st\<lparr>filteredCells := sorted, sortAsc := \<not> sortAsc st\<rparr>)"

section \<open>Scrolling and the visible cells\<close>

record Container =
  scrollTop :: real
  scrollHeight :: real
  clientHeight :: real

text \<open>\<open>current\<close> is \<open>containerRef.current\<close>: \<open>None\<close> when the reference is not set.\<close>

definition handleScroll :: "Container option \<Rightarrow> BarState \<Rightarrow> BarState" where
  "handleScroll current st =
     (case current of
        None \<Rightarrow> st
      | Some c \<Rightarrow>
          if scrollTop c + clientHeight c \<ge> scrollHeight c - 50
          then st\<lparr>page := page st + 1\<rparr>
          else st)"

text \<open>
  \<open>xs.slice(start, end)\<close>: a negative index counts from the end, and both indices are
  clamped to the array.
\<close>

definition slice :: "'a list \<Rightarrow> int \<Rightarrow> int \<Rightarrow> 'a list" where
  "slice xs start end =
     (let len = int (length xs);
          k = (if start < 0 then max (len + start) 0 else min start len);
          final = (if end < 0 then max (len + end) 0 else min end len)
      in take (nat (final - k)) (drop (nat k) xs))"

definition visibleCells :: "BarState \<Rightarrow> DateCell list" where
  "visibleCells st = slice (filteredCells st) 0 (page st * PAGE_SIZE)"

text \<open>The loop \<open>for (let i = 0; i < visibleCells.length; i += 10)\<close>.\<close>

function groupedRows_loop :: "DateCell list \<Rightarrow> int \<Rightarrow> DateCell list list \<Rightarrow> DateCell list list" where
  "groupedRows_loop visible i rows =
     (if i < int (length visible)
      then groupedRows_loop visible (i + 10) (rows @ [slice visible i (i + 10)])
      else rows)"
  by pat_completeness auto
termination
  by (relation "measure (\<lambda>(visible, i, rows). nat (int (length visible) - i))") auto

declare groupedRows_loop.simps [simp del]

definition groupedRows :: "BarState \<Rightarrow> DateCell list list" where
  "groupedRows st = groupedRows_loop (visibleCells st) 0 []"

section \<open>Generating the grid\<close>

text \<open>
  Modelled from the spec: the date-fns functions \<open>startOfDay\<close>, \<open>addDays\<close> and
  \<open>addMinutes\<close>, which are not part of the repository. The baseline is midnight, local
  time, of the day of generation; a day is 1440 minutes of 60000 ms. \<open>offset\<close> is the
  local zone's distance from UTC in ms.
\<close>

fun startOfDay :: "int \<Rightarrow> jsdate \<Rightarrow> jsdate" where
  "startOfDay offset (Date t) = new_Date (Num (t - (t + offset) mod msPerDay))"
| "startOfDay offset InvalidDate = InvalidDate"

fun addDays :: "jsdate \<Rightarrow> int \<Rightarrow> jsdate" where
  "addDays (Date t) amount = new_Date (Num (t + amount * msPerDay))"
| "addDays InvalidDate amount = InvalidDate"

fun addMinutes :: "jsdate \<Rightarrow> int \<Rightarrow> jsdate" where
  "addMinutes (Date t) amount = new_Date (Num (t + amount * 60000))"
| "addMinutes InvalidDate amount = InvalidDate"

text \<open>
  \<open>Math.random()\<close> gives a number that is at least 0 and less than 1. The two draws of
  one call are the arguments \<open>r1\<close> and \<open>r2\<close>.
\<close>

definition generateRandomDate :: "jsdate \<Rightarrow> real \<Rightarrow> real \<Rightarrow> jsdate" where
  "generateRandomDate baseDate r1 r2 =
     (let randomDays = \<lfloor>r1 * 365\<rfloor>;
          randomMinutes = \<lfloor>r2 * 1440\<rfloor>
      in addMinutes (addDays baseDate randomDays) randomMinutes)"

text \<open>A whole number in a template literal: its decimal digits, after a sign if negative.\<close>

definition digit_char :: "nat \<Rightarrow> char" where
  "digit_char n = char_of (48 + n)"

fun digits :: "nat \<Rightarrow> string" where
  "digits n = (if n < 10 then [digit_char n] else digits (n div 10) @ [digit_char (n mod 10)])"

declare digits.simps [simp del]

definition Number_toString :: "int \<Rightarrow> string" where
  "Number_toString i = (if i < 0 then CHR ''-'' # digits (nat (- i)) else digits (nat i))"

text \<open>
  The two loops of \<open>generateGrid\<close>. \<open>random\<close> is the sequence of results of
  \<open>Math.random()\<close>, and \<open>k\<close> counts the draws made so far.
\<close>

function col_loop ::
  "(nat \<Rightarrow> real) \<Rightarrow> jsdate \<Rightarrow> int \<Rightarrow> int \<Rightarrow> int \<Rightarrow> nat \<Rightarrow> DateCell list \<Rightarrow> DateCell list \<times> nat" where
  "col_loop random baseDate row cols col k currentRow =
     (if col < cols
      then
        (let randomDate = generateRandomDate baseDate (random k) (random (k + 1))
         in col_loop random baseDate row cols (col + 1) (k + 2)
              (currentRow @
                 [\<lparr>id_cell = Number_toString row @ ''-'' @ Number_toString col,
                   timestamp = randomDate\<rparr>]))
      else (currentRow, k))"
  by pat_completeness auto
termination
  by (relation "measure (\<lambda>(random, baseDate, row, cols, col, k, currentRow). nat (cols - col))") auto

declare col_loop.simps [simp del]

function row_loop ::
  "(nat \<Rightarrow> real) \<Rightarrow> jsdate \<Rightarrow> int \<Rightarrow> int \<Rightarrow> int \<Rightarrow> nat \<Rightarrow> DateCell list list \<Rightarrow> DateCell list list" where
  "row_loop random baseDate rows cols row k grid =
     (if row < rows
      then
        (case col_loop random baseDate row cols 0 k [] of
           (currentRow, k') \<Rightarrow> row_loop random baseDate rows cols (row + 1) k' (grid @ [currentRow]))
      else grid)"
  by pat_completeness auto
termination
  by (relation "measure (\<lambda>(random, baseDate, rows, cols, row, k, grid). nat (rows - row))") auto

declare row_loop.simps [simp del]

text \<open>
  \<open>now\<close> is the time value of \<open>new Date()\<close> and \<open>offset\<close> the local zone's distance
  from UTC.
\<close>

definition generateGrid :: "int \<Rightarrow> int \<Rightarrow> (nat \<Rightarrow> real) \<Rightarrow> int \<Rightarrow> int \<Rightarrow> DateCell list list" where
  "generateGrid now offset random rows cols =
     (let baseDate = startOfDay offset (new_Date (Num now))
      in row_loop random baseDate rows cols 0 0 [])"

section \<open>Statistics\<close>

text \<open>
  \<open>Math.min\<close> and \<open>Math.max\<close> of any number of arguments: NaN if an argument is NaN,
  and with no argument \<open>+\<infinity>\<close> and \<open>-\<infinity>\<close>.
\<close>

fun js_less :: "jsnum \<Rightarrow> jsnum \<Rightarrow> bool" where
  "js_less (Num a) (Num b) = (a < b)"
| "js_less NaN _ = False"
| "js_less _ NaN = False"
| "js_less NegInf NegInf = False"
| "js_less NegInf _ = True"
| "js_less PosInf _ = False"
| "js_less (Num a) PosInf = True"
| "js_less (Num a) NegInf = False"

definition min2 :: "jsnum \<Rightarrow> jsnum \<Rightarrow> jsnum" where
  "min2 lowest v = (if lowest = NaN \<or> v = NaN then NaN else if js_less v lowest then v else lowest)"

definition max2 :: "jsnum \<Rightarrow> jsnum \<Rightarrow> jsnum" where
  "max2 highest v = (if highest = NaN \<or> v = NaN then NaN else if js_less highest v then v else highest)"

definition Math_min :: "jsnum list \<Rightarrow> jsnum" where
  "Math_min vs = foldl min2 PosInf vs"

definition Math_max :: "jsnum list \<Rightarrow> jsnum" where
  "Math_max vs = foldl max2 NegInf vs"

text \<open>
  \<open>format(date, formatStr)\<close> of date-fns, which is not part of the repository. It
  raises a \<open>RangeError\<close> when the date is invalid. The text it gives for a valid date
  is left open: \<open>text\<close> maps the time value and the pattern to it.
\<close>

datatype error = RangeError

definition format :: "(int \<Rightarrow> string \<Rightarrow> string) \<Rightarrow> jsdate \<Rightarrow> string \<Rightarrow> error + string" where
  "format text date formatStr =
     (case date of
        InvalidDate \<Rightarrow> Inl RangeError
      | Date t \<Rightarrow> Inr (text t formatStr))"

text \<open>
  \<open>StatsSection\<close> renders three panels: the number of cells, the earliest date and the
  latest date. The values are computed in that order, so an error in formatting the
  earliest date is the component's result.
\<close>

record Stats =
  totalCells :: string
  earliestDate :: string
  latestDate :: string

definition StatsSection :: "(int \<Rightarrow> string \<Rightarrow> string) \<Rightarrow> DateCell list \<Rightarrow> error + Stats" where
  "StatsSection text cells =
     (let timestamps = map (\<lambda>c. getTime (timestamp c)) cells;
          minDate = new_Date (Math_min timestamps);
          maxDate = new_Date (Math_max timestamps);
          total = Number_toString (int (length cells))
      in case format text minDate ''yyyy-MM-dd HH:mm'' of
           Inl e \<Rightarrow> Inl e
         | Inr earliest \<Rightarrow>
             (case format text maxDate ''yyyy-MM-dd HH:mm'' of
                Inl e \<Rightarrow> Inl e
              | Inr latest \<Rightarrow>
                  Inr \<lparr>totalCells = total, earliestDate = earliest, latestDate = latest\<rparr>))"

section \<open>Comparisons with an invalid date\<close>

lemma date_ge_Invalid: "date_ge d InvalidDate = False"
  by (cases d) simp_all

lemma date_le_Invalid: "date_le d InvalidDate = False"
  by (cases d) simp_all

lemma in_interval:
  "(date_ge d (Date a) \<and> date_le d (Date b))
     = (case d of Date t \<Rightarrow> a \<le> t \<and> t \<le> b | InvalidDate \<Rightarrow> False)"
  by (cases d) auto

section \<open>Properties of sorting\<close>

lemma mset_insert_sorted: "mset (insert_sorted comparefn x ys) = add_mset x (mset ys)"
  by (induction ys) simp_all

lemma mset_Array_sort: "mset (Array_sort comparefn xs) = mset xs"
  by (induction xs) (simp_all add: Array_sort_def mset_insert_sorted)

lemma insert_sorted_descending:
  "timestamp x \<noteq> InvalidDate \<Longrightarrow> \<forall>y \<in> set ys. timestamp y \<noteq> InvalidDate \<Longrightarrow>
   insert_sorted (\<lambda>a b. js_minus (getTime (timestamp b)) (getTime (timestamp a))) x ys
     = insort_key (\<lambda>c. - timeValue (timestamp c)) x ys"
proof (induction ys)
  case Nil
  then show ?case by simp
next
  case (Cons y ys)
  from Cons.prems obtain s t where "timestamp x = Date s" "timestamp y = Date t"
    by (cases "timestamp x"; cases "timestamp y") auto
  with Cons show ?case by auto
qed

lemma insert_sorted_ascending:
  "timestamp x \<noteq> InvalidDate \<Longrightarrow> \<forall>y \<in> set ys. timestamp y \<noteq> InvalidDate \<Longrightarrow>
   insert_sorted (\<lambda>a b. js_minus (getTime (timestamp a)) (getTime (timestamp b))) x ys
     = insort_key (\<lambda>c. timeValue (timestamp c)) x ys"
proof (induction ys)
  case Nil
  then show ?case by simp
next
  case (Cons y ys)
  from Cons.prems obtain s t where "timestamp x = Date s" "timestamp y = Date t"
    by (cases "timestamp x"; cases "timestamp y") auto
  with Cons show ?case by auto
qed

lemma Array_sort_descending:
  "\<forall>x \<in> set xs. timestamp x \<noteq> InvalidDate \<Longrightarrow>
   Array_sort (\<lambda>a b. js_minus (getTime (timestamp b)) (getTime (timestamp a))) xs
     = sort_key (\<lambda>c. - timeValue (timestamp c)) xs"
proof (induction xs)
  case Nil
  then show ?case by (simp add: Array_sort_def)
next
  case (Cons x xs)
  then have "Array_sort (\<lambda>a b. js_minus (getTime (timestamp b)) (getTime (timestamp a))) xs
     = sort_key (\<lambda>c. - timeValue (timestamp c)) xs" by simp
  moreover have "\<forall>y \<in> set (sort_key (\<lambda>c. - timeValue (timestamp c)) xs). timestamp y \<noteq> InvalidDate"
    using Cons.prems by simp
  ultimately show ?case
    using Cons.prems by (simp add: Array_sort_def insert_sorted_descending)
qed

lemma Array_sort_ascending:
  "\<forall>x \<in> set xs. timestamp x \<noteq> InvalidDate \<Longrightarrow>
   Array_sort (\<lambda>a b. js_minus (getTime (timestamp a)) (getTime (timestamp b))) xs
     = sort_key (\<lambda>c. timeValue (timestamp c)) xs"
proof (induction xs)
  case Nil
  then show ?case by (simp add: Array_sort_def)
next
  case (Cons x xs)
  then have "Array_sort (\<lambda>a b. js_minus (getTime (timestamp a)) (getTime (timestamp b))) xs
     = sort_key (\<lambda>c. timeValue (timestamp c)) xs" by simp
  moreover have "\<forall>y \<in> set (sort_key (\<lambda>c. timeValue (timestamp c)) xs). timestamp y \<noteq> InvalidDate"
    using Cons.prems by simp
  ultimately show ?case
    using Cons.prems by (simp add: Array_sort_def insert_sorted_ascending)
qed

lemma date_le_timeValue:
  "timestamp a \<noteq> InvalidDate \<Longrightarrow> timestamp b \<noteq> InvalidDate \<Longrightarrow>
   date_le (timestamp a) (timestamp b) = (timeValue (timestamp a) \<le> timeValue (timestamp b))"
  by (cases "timestamp a"; cases "timestamp b") simp_all

lemma date_ge_timeValue:
  "timestamp a \<noteq> InvalidDate \<Longrightarrow> timestamp b \<noteq> InvalidDate \<Longrightarrow>
   date_ge (timestamp a) (timestamp b) = (timeValue (timestamp b) \<le> timeValue (timestamp a))"
  by (cases "timestamp a"; cases "timestamp b") simp_all

lemma ascending_iff:
  "\<forall>x \<in> set xs. timestamp x \<noteq> InvalidDate \<Longrightarrow>
   sorted_wrt (\<lambda>a b. date_le (timestamp a) (timestamp b)) xs
     = sorted (map (\<lambda>c. timeValue (timestamp c)) xs)"
  by (induction xs) (auto simp add: date_le_timeValue)

lemma descending_iff:
  "\<forall>x \<in> set xs. timestamp x \<noteq> InvalidDate \<Longrightarrow>
   sorted_wrt (\<lambda>a b. date_ge (timestamp a) (timestamp b)) xs
     = sorted (map (\<lambda>c. - timeValue (timestamp c)) xs)"
  by (induction xs) (auto simp add: date_ge_timeValue)

lemma descending_Array_sort:
  assumes "\<forall>x \<in> set xs. timestamp x \<noteq> InvalidDate"
  shows "sorted_wrt (\<lambda>a b. date_ge (timestamp a) (timestamp b))
           (Array_sort (\<lambda>a b. js_minus (getTime (timestamp b)) (getTime (timestamp a))) xs)"
proof -
  have "\<forall>x \<in> set (sort_key (\<lambda>c. - timeValue (timestamp c)) xs). timestamp x \<noteq> InvalidDate"
    using assms by simp
  then show ?thesis
    using assms by (simp add: Array_sort_descending descending_iff)
qed

lemma ascending_Array_sort:
  assumes "\<forall>x \<in> set xs. timestamp x \<noteq> InvalidDate"
  shows "sorted_wrt (\<lambda>a b. date_le (timestamp a) (timestamp b))
           (Array_sort (\<lambda>a b. js_minus (getTime (timestamp a)) (getTime (timestamp b))) xs)"
proof -
  have "\<forall>x \<in> set (sort_key (\<lambda>c. timeValue (timestamp c)) xs). timestamp x \<noteq> InvalidDate"
    using assms by simp
  then show ?thesis
    using assms by (simp add: Array_sort_ascending ascending_iff)
qed

lemma sort_back_ascending:
  assumes valid: "\<forall>x \<in> set xs. timestamp x \<noteq> InvalidDate"
    and asc: "sorted (map (\<lambda>c. timeValue (timestamp c)) xs)"
  shows "sort_key (\<lambda>c. timeValue (timestamp c)) (sort_key (\<lambda>c. - timeValue (timestamp c)) xs) = xs"
proof (rule properties_for_sort_key)
  show "mset xs = mset (sort_key (\<lambda>c. - timeValue (timestamp c)) xs)"
    by simp
  show "sorted (map (\<lambda>c. timeValue (timestamp c)) xs)"
    by (rule asc)
  fix k
  have "filter (\<lambda>y. - timeValue (timestamp y) = - timeValue (timestamp k))
          (sort_key (\<lambda>c. - timeValue (timestamp c)) xs)
        = filter (\<lambda>y. - timeValue (timestamp y) = - timeValue (timestamp k)) xs"
    by (rule sort_key_stable)
  then show "filter (\<lambda>x. timeValue (timestamp k) = timeValue (timestamp x)) xs
        = filter (\<lambda>x. timeValue (timestamp k) = timeValue (timestamp x))
            (sort_key (\<lambda>c. - timeValue (timestamp c)) xs)"
    by (simp add: eq_commute)
qed

lemma sort_back_descending:
  assumes valid: "\<forall>x \<in> set xs. timestamp x \<noteq> InvalidDate"
    and desc: "sorted (map (\<lambda>c. - timeValue (timestamp c)) xs)"
  shows "sort_key (\<lambda>c. - timeValue (timestamp c)) (sort_key (\<lambda>c. timeValue (timestamp c)) xs) = xs"
proof (rule properties_for_sort_key)
  show "mset xs = mset (sort_key (\<lambda>c. timeValue (timestamp c)) xs)"
    by simp
  show "sorted (map (\<lambda>c. - timeValue (timestamp c)) xs)"
    by (rule desc)
  fix k
  have "filter (\<lambda>y. timeValue (timestamp y) = timeValue (timestamp k))
          (sort_key (\<lambda>c. timeValue (timestamp c)) xs)
        = filter (\<lambda>y. timeValue (timestamp y) = timeValue (timestamp k)) xs"
    by (rule sort_key_stable)
  then show "filter (\<lambda>x. - timeValue (timestamp k) = - timeValue (timestamp x)) xs
        = filter (\<lambda>x. - timeValue (timestamp k) = - timeValue (timestamp x))
            (sort_key (\<lambda>c. timeValue (timestamp c)) xs)"
    by (simp add: eq_commute)
qed

lemma ordered_valid:
  assumes "sorted_wrt R xs" and "2 \<le> length xs" and "\<And>a b. R a b \<Longrightarrow> P a \<and> P b"
  shows "\<forall>x \<in> set xs. P x"
proof -
  from assms(2) obtain x y zs where xs: "xs = x # y # zs"
    by (cases xs; cases "tl xs") auto
  with assms(1) have all: "\<forall>b \<in> set (y # zs). R x b" by simp
  then have "R x y" by simp
  with assms(3) have "P x" by blast
  moreover from all assms(3) have "\<forall>b \<in> set (y # zs). P b" by blast
  ultimately show ?thesis using xs by simp
qed

lemma Array_sort_short: "length xs \<le> 1 \<Longrightarrow> Array_sort comparefn xs = xs"
  by (cases xs) (simp_all add: Array_sort_def)

lemma toggle_twice_ascending:
  assumes "sorted_wrt (\<lambda>a b. date_le (timestamp a) (timestamp b)) xs"
  shows "Array_sort (\<lambda>a b. js_minus (getTime (timestamp a)) (getTime (timestamp b)))
           (Array_sort (\<lambda>a b. js_minus (getTime (timestamp b)) (getTime (timestamp a))) xs) = xs"
proof (cases "length xs \<le> 1")
  case True
  then show ?thesis by (simp add: Array_sort_short)
next
  case False
  then have "2 \<le> length xs" by simp
  with assms have valid: "\<forall>x \<in> set xs. timestamp x \<noteq> InvalidDate"
    by (rule ordered_valid) (auto simp add: date_le_Invalid elim: date_le.elims)
  then have valid': "\<forall>x \<in> set (sort_key (\<lambda>c. - timeValue (timestamp c)) xs). timestamp x \<noteq> InvalidDate"
    by simp
  from valid assms have "sorted (map (\<lambda>c. timeValue (timestamp c)) xs)"
    by (simp add: ascending_iff)
  with valid have "sort_key (\<lambda>c. timeValue (timestamp c)) (sort_key (\<lambda>c. - timeValue (timestamp c)) xs) = xs"
    by (rule sort_back_ascending)
  with valid valid' show ?thesis
    by (simp add: Array_sort_descending Array_sort_ascending)
qed

lemma toggle_twice_descending:
  assumes "sorted_wrt (\<lambda>a b. date_ge (timestamp a) (timestamp b)) xs"
  shows "Array_sort (\<lambda>a b. js_minus (getTime (timestamp b)) (getTime (timestamp a)))
           (Array_sort (\<lambda>a b. js_minus (getTime (timestamp a)) (getTime (timestamp b))) xs) = xs"
proof (cases "length xs \<le> 1")
  case True
  then show ?thesis by (simp add: Array_sort_short)
next
  case False
  then have "2 \<le> length xs" by simp
  with assms have valid: "\<forall>x \<in> set xs. timestamp x \<noteq> InvalidDate"
    by (rule ordered_valid) (auto simp add: date_ge_Invalid elim: date_ge.elims)
  then have valid': "\<forall>x \<in> set (sort_key (\<lambda>c. timeValue (timestamp c)) xs). timestamp x \<noteq> InvalidDate"
    by simp
  from valid assms have "sorted (map (\<lambda>c. - timeValue (timestamp c)) xs)"
    by (simp add: descending_iff)
  with valid have "sort_key (\<lambda>c. - timeValue (timestamp c)) (sort_key (\<lambda>c. timeValue (timestamp c)) xs) = xs"
    by (rule sort_back_descending)
  with valid valid' show ?thesis
    by (simp add: Array_sort_descending Array_sort_ascending)
qed

lemma set_Array_sort: "set (Array_sort comparefn xs) = set xs"
  using mset_Array_sort [of comparefn xs] by (metis set_mset_mset)

text \<open>
  C2. A sort toggle keeps the filtered cells as a multiset, flips the flag and leaves
  the grid and the page alone. When every cell holds a valid date, the result is ordered
  by timestamp: descending when the flag was true, ascending when it was false. The flag
  starts true, so the first toggle from the initial state gives descending order.
\<close>

theorem handleSortToggle_reorders:
  "mset (filteredCells (handleSortToggle st)) = mset (filteredCells st)
   \<and> sortAsc (handleSortToggle st) = (\<not> sortAsc st)
   \<and> fullGrid (handleSortToggle st) = fullGrid st
   \<and> page (handleSortToggle st) = page st
   \<and> ((\<forall>cell \<in> set (filteredCells st). timestamp cell \<noteq> InvalidDate) \<longrightarrow>
        (if sortAsc st
         then sorted_wrt (\<lambda>a b. date_ge (timestamp a) (timestamp b))
                (filteredCells (handleSortToggle st))
         else sorted_wrt (\<lambda>a b. date_le (timestamp a) (timestamp b))
                (filteredCells (handleSortToggle st))))
   \<and> sortAsc (initialState grid) = True
   \<and> ((\<forall>cell \<in> set (concat grid). timestamp cell \<noteq> InvalidDate) \<longrightarrow>
        sorted_wrt (\<lambda>a b. date_ge (timestamp a) (timestamp b))
          (filteredCells (handleSortToggle (initialState grid))))"
proof -
  have perm: "mset (filteredCells (handleSortToggle st)) = mset (filteredCells st)"
    by (simp add: handleSortToggle_def mset_Array_sort)
  have rest: "sortAsc (handleSortToggle st) = (\<not> sortAsc st)
      \<and> fullGrid (handleSortToggle st) = fullGrid st \<and> page (handleSortToggle st) = page st"
    by (simp add: handleSortToggle_def)
  have dir: "(\<forall>cell \<in> set (filteredCells st). timestamp cell \<noteq> InvalidDate) \<longrightarrow>
        (if sortAsc st
         then sorted_wrt (\<lambda>a b. date_ge (timestamp a) (timestamp b))
                (filteredCells (handleSortToggle st))
         else sorted_wrt (\<lambda>a b. date_le (timestamp a) (timestamp b))
                (filteredCells (handleSortToggle st)))"
    by (simp add: handleSortToggle_def descending_Array_sort ascending_Array_sort)
  have init: "sortAsc (initialState grid) = True"
    by (simp add: initialState_def)
  have first: "(\<forall>cell \<in> set (concat grid). timestamp cell \<noteq> InvalidDate) \<longrightarrow>
        sorted_wrt (\<lambda>a b. date_ge (timestamp a) (timestamp b))
          (filteredCells (handleSortToggle (initialState grid)))"
    using descending_Array_sort [of "concat grid"]
    by (simp add: handleSortToggle_def initialState_def)
  from perm rest dir init first show ?thesis by blast
qed

theorem handleSortToggle_reorders_witness:
  "sorted_wrt (\<lambda>a b. date_ge (timestamp a) (timestamp b))
     (filteredCells (handleSortToggle
        (initialState [[\<lparr>id_cell = ''0-0'', timestamp = Date 2\<rparr>,
                        \<lparr>id_cell = ''0-1'', timestamp = Date 1\<rparr>,
                        \<lparr>id_cell = ''0-2'', timestamp = Date 3\<rparr>]])))
   \<and> \<not> sortAsc (handleSortToggle
        (initialState [[\<lparr>id_cell = ''0-0'', timestamp = Date 2\<rparr>,
                        \<lparr>id_cell = ''0-1'', timestamp = Date 1\<rparr>,
                        \<lparr>id_cell = ''0-2'', timestamp = Date 3\<rparr>]]))"
  using handleSortToggle_reorders
    [of "initialState [[\<lparr>id_cell = ''0-0'', timestamp = Date 2\<rparr>,
                        \<lparr>id_cell = ''0-1'', timestamp = Date 1\<rparr>,
                        \<lparr>id_cell = ''0-2'', timestamp = Date 3\<rparr>]]"
        "[[\<lparr>id_cell = ''0-0'', timestamp = Date 2\<rparr>,
                        \<lparr>id_cell = ''0-1'', timestamp = Date 1\<rparr>,
                        \<lparr>id_cell = ''0-2'', timestamp = Date 3\<rparr>]]"]
  by (simp add: initialState_def)

text \<open>
  C3. Two toggles in a row give back the same state when the filtered cells are already
  ordered the way the flag says (ascending when it is true, descending when it is
  false), ties included, because the sort is stable. For cells with valid dates in any
  order, each of the two toggles gives an output ordered in its own direction: from a
  true flag descending and then ascending, from a false flag ascending and then
  descending. Membership and the flag are the same after two toggles.
\<close>

theorem handleSortToggle_twice:
  "((if sortAsc st
     then sorted_wrt (\<lambda>a b. date_le (timestamp a) (timestamp b)) (filteredCells st)
     else sorted_wrt (\<lambda>a b. date_ge (timestamp a) (timestamp b)) (filteredCells st)) \<longrightarrow>
      handleSortToggle (handleSortToggle st) = st)
   \<and> ((\<forall>cell \<in> set (filteredCells st). timestamp cell \<noteq> InvalidDate) \<longrightarrow>
        (if sortAsc st
         then sorted_wrt (\<lambda>a b. date_ge (timestamp a) (timestamp b))
                (filteredCells (handleSortToggle st))
              \<and> sorted_wrt (\<lambda>a b. date_le (timestamp a) (timestamp b))
                (filteredCells (handleSortToggle (handleSortToggle st)))
         else sorted_wrt (\<lambda>a b. date_le (timestamp a) (timestamp b))
                (filteredCells (handleSortToggle st))
              \<and> sorted_wrt (\<lambda>a b. date_ge (timestamp a) (timestamp b))
                (filteredCells (handleSortToggle (handleSortToggle st)))))
   \<and> mset (filteredCells (handleSortToggle (handleSortToggle st))) = mset (filteredCells st)
   \<and> sortAsc (handleSortToggle (handleSortToggle st)) = sortAsc st"
proof -
  have same: "(if sortAsc st
     then sorted_wrt (\<lambda>a b. date_le (timestamp a) (timestamp b)) (filteredCells st)
     else sorted_wrt (\<lambda>a b. date_ge (timestamp a) (timestamp b)) (filteredCells st)) \<longrightarrow>
      handleSortToggle (handleSortToggle st) = st"
    by (simp add: handleSortToggle_def toggle_twice_ascending toggle_twice_descending)
  have dir: "(\<forall>cell \<in> set (filteredCells st). timestamp cell \<noteq> InvalidDate) \<longrightarrow>
        (if sortAsc st
         then sorted_wrt (\<lambda>a b. date_ge (timestamp a) (timestamp b))
                (filteredCells (handleSortToggle st))
              \<and> sorted_wrt (\<lambda>a b. date_le (timestamp a) (timestamp b))
                (filteredCells (handleSortToggle (handleSortToggle st)))
         else sorted_wrt (\<lambda>a b. date_le (timestamp a) (timestamp b))
                (filteredCells (handleSortToggle st))
              \<and> sorted_wrt (\<lambda>a b. date_ge (timestamp a) (timestamp b))
                (filteredCells (handleSortToggle (handleSortToggle st))))"
    by (simp add: handleSortToggle_def descending_Array_sort ascending_Array_sort set_Array_sort)
  have perm: "mset (filteredCells (handleSortToggle (handleSortToggle st))) = mset (filteredCells st)
      \<and> sortAsc (handleSortToggle (handleSortToggle st)) = sortAsc st"
    by (simp add: handleSortToggle_def mset_Array_sort)
  from same dir perm show ?thesis by blast
qed

theorem handleSortToggle_twice_witness:
  "handleSortToggle (handleSortToggle
      \<lparr>fullGrid = [], filteredCells = [\<lparr>id_cell = ''0-1'', timestamp = Date 1\<rparr>,
                      \<lparr>id_cell = ''0-0'', timestamp = Date 2\<rparr>,
                      \<lparr>id_cell = ''0-3'', timestamp = Date 2\<rparr>,
                      \<lparr>id_cell = ''0-2'', timestamp = Date 3\<rparr>], page = 1, sortAsc = True\<rparr>)
   = \<lparr>fullGrid = [], filteredCells = [\<lparr>id_cell = ''0-1'', timestamp = Date 1\<rparr>,
                      \<lparr>id_cell = ''0-0'', timestamp = Date 2\<rparr>,
                      \<lparr>id_cell = ''0-3'', timestamp = Date 2\<rparr>,
                      \<lparr>id_cell = ''0-2'', timestamp = Date 3\<rparr>], page = 1, sortAsc = True\<rparr>
   \<and> sorted_wrt (\<lambda>a b. date_ge (timestamp a) (timestamp b))
       (filteredCells (handleSortToggle
          \<lparr>fullGrid = [], filteredCells = [\<lparr>id_cell = ''0-1'', timestamp = Date 1\<rparr>,
                      \<lparr>id_cell = ''0-0'', timestamp = Date 2\<rparr>,
                      \<lparr>id_cell = ''0-3'', timestamp = Date 2\<rparr>,
                      \<lparr>id_cell = ''0-2'', timestamp = Date 3\<rparr>], page = 1, sortAsc = True\<rparr>))
   \<and> sorted_wrt (\<lambda>a b. date_le (timestamp a) (timestamp b))
       (filteredCells (handleSortToggle (handleSortToggle
          \<lparr>fullGrid = [], filteredCells = [\<lparr>id_cell = ''0-1'', timestamp = Date 1\<rparr>,
                      \<lparr>id_cell = ''0-0'', timestamp = Date 2\<rparr>,
                      \<lparr>id_cell = ''0-3'', timestamp = Date 2\<rparr>,
                      \<lparr>id_cell = ''0-2'', timestamp = Date 3\<rparr>], page = 1, sortAsc = True\<rparr>)))"
proof -
  let ?st = "\<lparr>fullGrid = [], filteredCells = [\<lparr>id_cell = ''0-1'', timestamp = Date 1\<rparr>,
                      \<lparr>id_cell = ''0-0'', timestamp = Date 2\<rparr>,
                      \<lparr>id_cell = ''0-3'', timestamp = Date 2\<rparr>,
                      \<lparr>id_cell = ''0-2'', timestamp = Date 3\<rparr>], page = 1, sortAsc = True\<rparr>"
  have ordered: "if sortAsc ?st
     then sorted_wrt (\<lambda>a b. date_le (timestamp a) (timestamp b)) (filteredCells ?st)
     else sorted_wrt (\<lambda>a b. date_ge (timestamp a) (timestamp b)) (filteredCells ?st)"
    by simp
  have valid: "\<forall>cell \<in> set (filteredCells ?st). timestamp cell \<noteq> InvalidDate"
    by simp
  have flag: "sortAsc ?st"
    by simp
  from handleSortToggle_twice [of ?st] ordered
  have same: "handleSortToggle (handleSortToggle ?st) = ?st"
    by blast
  from handleSortToggle_twice [of ?st] valid flag
  have "sorted_wrt (\<lambda>a b. date_ge (timestamp a) (timestamp b))
          (filteredCells (handleSortToggle ?st))
      \<and> sorted_wrt (\<lambda>a b. date_le (timestamp a) (timestamp b))
          (filteredCells (handleSortToggle (handleSortToggle ?st)))"
    by simp
  with same show ?thesis
    by blast
qed

section \<open>Properties of paging and grouping\<close>

lemma slice_prefix: "0 \<le> n \<Longrightarrow> slice xs 0 n = take (nat n) xs"
  by (simp add: slice_def Let_def min_def)

lemma slice_chunk:
  "10 * k < length xs \<Longrightarrow> slice xs (10 * int k) (10 * int k + 10) = take 10 (drop (10 * k) xs)"
  by (simp add: slice_def Let_def min_def nat_mult_distrib nat_add_distrib)

lemma groupedRows_loop_closed:
  "i = 10 * int k \<Longrightarrow>
   groupedRows_loop visible i rows
     = rows @ map (\<lambda>j. take 10 (drop (10 * j) visible)) [k..<(length visible + 9) div 10]"
proof (induction visible i rows arbitrary: k rule: groupedRows_loop.induct)
  case (1 visible i rows)
  show ?case
  proof (cases "i < int (length visible)")
    case True
    with "1.prems" have lt: "10 * k < length visible" by simp
    then have k: "k < (length visible + 9) div 10" by simp
    have "i + 10 = 10 * int (Suc k)" using "1.prems" by simp
    with True have "groupedRows_loop visible (i + 10) (rows @ [slice visible i (i + 10)])
        = (rows @ [slice visible i (i + 10)])
          @ map (\<lambda>j. take 10 (drop (10 * j) visible)) [Suc k..<(length visible + 9) div 10]"
      by (rule "1.IH")
    moreover have "slice visible i (i + 10) = take 10 (drop (10 * k) visible)"
      using lt "1.prems" by (simp add: slice_chunk)
    moreover have "[k..<(length visible + 9) div 10] = k # [Suc k..<(length visible + 9) div 10]"
      using k by (simp add: upt_conv_Cons)
    ultimately show ?thesis
      using True by (simp add: groupedRows_loop.simps [of visible i rows])
  next
    case False
    with "1.prems" have "(length visible + 9) div 10 \<le> k" by simp
    with False show ?thesis
      by (simp add: groupedRows_loop.simps [of visible i rows])
  qed
qed

lemma concat_chunks:
  "concat (map (\<lambda>j. take m (drop (m * j) xs)) [0..<n]) = take (m * n) xs"
proof (induction n)
  case 0
  then show ?case by simp
next
  case (Suc n)
  have "take (m * n + m) xs = take (m * n) xs @ take m (drop (m * n) xs)"
    by (rule take_add)
  with Suc show ?case by (simp add: add.commute)
qed

lemma groupedRows_closed:
  "groupedRows st
     = map (\<lambda>j. take 10 (drop (10 * j) (visibleCells st))) [0..<(length (visibleCells st) + 9) div 10]"
  using groupedRows_loop_closed [of 0 0 "visibleCells st" "[]"]
  by (simp add: groupedRows_def)

text \<open>
  C5. For a page of at least 1 the visible cells are the first \<open>page * PAGE_SIZE\<close>
  filtered cells, so their number is the smaller of \<open>page * PAGE_SIZE\<close> and the number
  of filtered cells, with \<open>PAGE_SIZE\<close> 20. The slice is never longer than the filtered
  set, whatever the page.
\<close>

theorem visibleCells_length:
  "(1 \<le> page st \<longrightarrow>
      int (length (visibleCells st)) = min (page st * PAGE_SIZE) (int (length (filteredCells st)))
      \<and> visibleCells st = take (nat (page st * PAGE_SIZE)) (filteredCells st))
   \<and> PAGE_SIZE = 20
   \<and> length (visibleCells st) \<le> length (filteredCells st)"
proof -
  have "1 \<le> page st \<longrightarrow>
      int (length (visibleCells st)) = min (page st * PAGE_SIZE) (int (length (filteredCells st)))
      \<and> visibleCells st = take (nat (page st * PAGE_SIZE)) (filteredCells st)"
    by (auto simp add: visibleCells_def PAGE_SIZE_def slice_prefix)
  moreover have "length (visibleCells st) \<le> length (filteredCells st)"
    by (simp add: visibleCells_def slice_def Let_def)
  moreover have "PAGE_SIZE = 20"
    by (simp add: PAGE_SIZE_def)
  ultimately show ?thesis by blast
qed

theorem visibleCells_length_witness:
  "length (visibleCells
      \<lparr>fullGrid = [], filteredCells = replicate 25 \<lparr>id_cell = ''0-0'', timestamp = Date 7\<rparr>,
       page = 1, sortAsc = True\<rparr>) = 20
   \<and> length (visibleCells
      \<lparr>fullGrid = [], filteredCells = replicate 25 \<lparr>id_cell = ''0-0'', timestamp = Date 7\<rparr>,
       page = 2, sortAsc = True\<rparr>) = 25"
proof -
  let ?one = "\<lparr>fullGrid = [], filteredCells = replicate 25 \<lparr>id_cell = ''0-0'', timestamp = Date 7\<rparr>,
       page = 1, sortAsc = True\<rparr>"
  let ?two = "\<lparr>fullGrid = [], filteredCells = replicate 25 \<lparr>id_cell = ''0-0'', timestamp = Date 7\<rparr>,
       page = 2, sortAsc = True\<rparr>"
  have "1 \<le> page ?one" and "1 \<le> page ?two"
    by simp_all
  with visibleCells_length [of ?one] visibleCells_length [of ?two]
  have "int (length (visibleCells ?one)) = min (page ?one * PAGE_SIZE) (int (length (filteredCells ?one)))"
    and "int (length (visibleCells ?two)) = min (page ?two * PAGE_SIZE) (int (length (filteredCells ?two)))"
    by blast+
  then show ?thesis
    by (simp add: PAGE_SIZE_def)
qed

text \<open>
  C6. When the container is scrolled to within 50 of its bottom, \<open>handleScroll\<close> adds
  exactly 1 to \<open>page\<close> and leaves the filtered cells alone, whatever their number: three
  such events from page 1 give page 4. Once \<open>page * PAGE_SIZE\<close> has reached the number
  of filtered cells a further event shows nothing new: the visible cells stay the whole
  filtered set. The visible cells never outnumber the filtered cells.
\<close>

theorem handleScroll_increments:
  "(scrollTop c + clientHeight c \<ge> scrollHeight c - 50 \<longrightarrow>
      page (handleScroll (Some c) st) = page st + 1
      \<and> filteredCells (handleScroll (Some c) st) = filteredCells st
      \<and> page ((handleScroll (Some c) ^^ 3) (st\<lparr>page := 1\<rparr>)) = 4)
   \<and> (scrollTop c + clientHeight c \<ge> scrollHeight c - 50
        \<and> 1 \<le> page st \<and> int (length (filteredCells st)) \<le> page st * PAGE_SIZE \<longrightarrow>
      visibleCells st = filteredCells st
      \<and> visibleCells (handleScroll (Some c) st) = filteredCells st)
   \<and> length (visibleCells (handleScroll current st)) \<le> length (filteredCells st)"
proof -
  have step: "scrollTop c + clientHeight c \<ge> scrollHeight c - 50 \<longrightarrow>
      page (handleScroll (Some c) st) = page st + 1
      \<and> filteredCells (handleScroll (Some c) st) = filteredCells st
      \<and> page ((handleScroll (Some c) ^^ 3) (st\<lparr>page := 1\<rparr>)) = 4"
    by (simp add: handleScroll_def numeral_3_eq_3)
  have past: "scrollTop c + clientHeight c \<ge> scrollHeight c - 50
        \<and> 1 \<le> page st \<and> int (length (filteredCells st)) \<le> page st * PAGE_SIZE \<longrightarrow>
      visibleCells st = filteredCells st
      \<and> visibleCells (handleScroll (Some c) st) = filteredCells st"
    by (auto simp add: handleScroll_def visibleCells_def PAGE_SIZE_def slice_prefix)
  have cap: "length (visibleCells (handleScroll current st)) \<le> length (filteredCells st)"
    by (cases current) (auto simp add: handleScroll_def visibleCells_def slice_def Let_def)
  from step past cap show ?thesis by blast
qed

theorem handleScroll_increments_witness:
  "page ((handleScroll (Some \<lparr>scrollTop = 960, scrollHeight = 1500, clientHeight = 500\<rparr>) ^^ 3)
      \<lparr>fullGrid = [], filteredCells = replicate 25 \<lparr>id_cell = ''0-0'', timestamp = Date 7\<rparr>,
       page = 1, sortAsc = True\<rparr>) = 4
   \<and> visibleCells (handleScroll (Some \<lparr>scrollTop = 960, scrollHeight = 1500, clientHeight = 500\<rparr>)
      \<lparr>fullGrid = [], filteredCells = replicate 25 \<lparr>id_cell = ''0-0'', timestamp = Date 7\<rparr>,
       page = 2, sortAsc = True\<rparr>)
     = replicate 25 \<lparr>id_cell = ''0-0'', timestamp = Date 7\<rparr>"
  using handleScroll_increments
      [of "\<lparr>scrollTop = 960, scrollHeight = 1500, clientHeight = 500\<rparr>"
          "\<lparr>fullGrid = [], filteredCells = replicate 25 \<lparr>id_cell = ''0-0'', timestamp = Date 7\<rparr>,
            page = 1, sortAsc = True\<rparr>"]
    handleScroll_increments
      [of "\<lparr>scrollTop = 960, scrollHeight = 1500, clientHeight = 500\<rparr>"
          "\<lparr>fullGrid = [], filteredCells = replicate 25 \<lparr>id_cell = ''0-0'', timestamp = Date 7\<rparr>,
            page = 2, sortAsc = True\<rparr>"]
  by (simp add: PAGE_SIZE_def)

text \<open>
  C7. The grouped rows, concatenated in order, are the visible cells. Row \<open>j\<close> holds the
  cells from position \<open>10 * j\<close> on, at most 10 of them; every row but the last has
  exactly 10 cells and no row is empty.
\<close>

theorem groupedRows_partition:
  "concat (groupedRows st) = visibleCells st
   \<and> (\<forall>row \<in> set (butlast (groupedRows st)). length row = 10)
   \<and> (\<forall>row \<in> set (groupedRows st). 1 \<le> length row \<and> length row \<le> 10)
   \<and> (\<forall>j < length (groupedRows st). groupedRows st ! j = take 10 (drop (10 * j) (visibleCells st)))"
proof -
  let ?v = "visibleCells st"
  let ?n = "(length ?v + 9) div 10"
  have whole: "concat (groupedRows st) = ?v"
    by (simp add: groupedRows_closed concat_chunks)
  have len: "length (groupedRows st) = ?n"
    by (simp add: groupedRows_closed)
  have nth: "\<forall>j < length (groupedRows st). groupedRows st ! j = take 10 (drop (10 * j) ?v)"
    by (simp add: groupedRows_closed)
  have each: "\<forall>row \<in> set (groupedRows st). 1 \<le> length row \<and> length row \<le> 10"
    by (auto simp add: groupedRows_closed)
  have full: "\<forall>row \<in> set (butlast (groupedRows st)). length row = 10"
  proof
    fix row assume "row \<in> set (butlast (groupedRows st))"
    then obtain j where j: "j < length (butlast (groupedRows st))" "row = butlast (groupedRows st) ! j"
      by (auto simp add: in_set_conv_nth)
    then have "Suc j < ?n" using len by simp
    moreover from j have "row = groupedRows st ! j" by (simp add: nth_butlast)
    ultimately show "length row = 10" using len by (simp add: groupedRows_closed)
  qed
  from whole full each nth show ?thesis by blast
qed

theorem groupedRows_partition_witness:
  "groupedRows
      \<lparr>fullGrid = [], filteredCells = replicate 12 \<lparr>id_cell = ''0-0'', timestamp = Date 7\<rparr>,
       page = 1, sortAsc = True\<rparr>
     = [replicate 10 \<lparr>id_cell = ''0-0'', timestamp = Date 7\<rparr>,
        replicate 2 \<lparr>id_cell = ''0-0'', timestamp = Date 7\<rparr>]
   \<and> concat (groupedRows
      \<lparr>fullGrid = [], filteredCells = replicate 12 \<lparr>id_cell = ''0-0'', timestamp = Date 7\<rparr>,
       page = 1, sortAsc = True\<rparr>)
     = replicate 12 \<lparr>id_cell = ''0-0'', timestamp = Date 7\<rparr>"
proof -
  let ?st = "\<lparr>fullGrid = [], filteredCells = replicate 12 \<lparr>id_cell = ''0-0'', timestamp = Date 7\<rparr>,
       page = 1, sortAsc = True\<rparr>"
  have v: "visibleCells ?st = replicate 12 \<lparr>id_cell = ''0-0'', timestamp = Date 7\<rparr>"
    by (simp add: visibleCells_def PAGE_SIZE_def slice_def)
  have g: "groupedRows ?st = [replicate 10 \<lparr>id_cell = ''0-0'', timestamp = Date 7\<rparr>,
        replicate 2 \<lparr>id_cell = ''0-0'', timestamp = Date 7\<rparr>]"
    by code_simp
  from groupedRows_partition [of ?st] have "concat (groupedRows ?st) = visibleCells ?st"
    by (rule conjunct1)
  with v g show ?thesis by (simp only: simp_thms)
qed

section \<open>Properties of the generated grid\<close>

lemma upt_0_Suc: "[0..<Suc m] = 0 # map Suc [0..<m]"
  by (simp add: upt_conv_Cons map_Suc_upt del: upt_Suc)

lemma col_loop_closed:
  "col_loop random baseDate row cols col k currentRow =
     (currentRow @
        map (\<lambda>j. \<lparr>id_cell = Number_toString row @ ''-'' @ Number_toString (col + int j),
                  timestamp = generateRandomDate baseDate (random (k + 2 * j))
                                (random (k + 2 * j + 1))\<rparr>)
            [0..<nat (cols - col)],
      k + 2 * nat (cols - col))"
proof (induction random baseDate row cols col k currentRow rule: col_loop.induct)
  case (1 random baseDate row cols col k currentRow)
  show ?case
  proof (cases "col < cols")
    case True
    then have n: "nat (cols - col) = Suc (nat (cols - (col + 1)))" by simp
    note IH = "1.IH" [OF True refl]
    show ?thesis
      apply (subst col_loop.simps)
      apply (simp only: True if_True Let_def IH n upt_0_Suc)
      apply (simp add: o_def add.assoc)
      done
  next
    case False
    then show ?thesis
      by (subst col_loop.simps) simp
  qed
qed

lemma row_loop_closed:
  "row_loop random baseDate rows cols row k grid =
     grid @
       map (\<lambda>i. map (\<lambda>j. \<lparr>id_cell = Number_toString (row + int i) @ ''-'' @ Number_toString (int j),
                            timestamp = generateRandomDate baseDate
                                          (random (k + 2 * (i * nat cols + j)))
                                          (random (k + 2 * (i * nat cols + j) + 1))\<rparr>)
                     [0..<nat cols])
           [0..<nat (rows - row)]"
proof (induction random baseDate rows cols row k grid rule: row_loop.induct)
  case (1 random baseDate rows cols row k grid)
  show ?case
  proof (cases "row < rows")
    case True
    then have n: "nat (rows - row) = Suc (nat (rows - (row + 1)))" by simp
    let ?currentRow =
      "map (\<lambda>j. \<lparr>id_cell = Number_toString row @ ''-'' @ Number_toString (int j),
                  timestamp = generateRandomDate baseDate (random (k + 2 * j))
                                (random (k + 2 * j + 1))\<rparr>)
           [0..<nat cols]"
    have cols: "col_loop random baseDate row cols 0 k [] = (?currentRow, k + 2 * nat cols)"
      by (simp add: col_loop_closed)
    have IH: "row_loop random baseDate rows cols (row + 1) (k + 2 * nat cols) (grid @ [?currentRow])
        = (grid @ [?currentRow]) @
          map (\<lambda>i. map (\<lambda>j. \<lparr>id_cell = Number_toString (row + 1 + int i) @ ''-'' @ Number_toString (int j),
                            timestamp = generateRandomDate baseDate
                                          (random (k + 2 * nat cols + 2 * (i * nat cols + j)))
                                          (random (k + 2 * nat cols + 2 * (i * nat cols + j) + 1))\<rparr>)
                     [0..<nat cols])
           [0..<nat (rows - (row + 1))]"
      using True cols by (rule "1.IH" [OF _ sym])
    have "row_loop random baseDate rows cols row k grid
        = row_loop random baseDate rows cols (row + 1) (k + 2 * nat cols) (grid @ [?currentRow])"
      by (subst row_loop.simps) (simp only: True if_True cols prod.case)
    also note IH
    finally show ?thesis
      by (simp add: n upt_0_Suc o_def algebra_simps del: upt_Suc)
  next
    case False
    then show ?thesis
      by (subst row_loop.simps) simp
  qed
qed

lemma digit_char_inj: "a < 10 \<Longrightarrow> b < 10 \<Longrightarrow> digit_char a = digit_char b \<Longrightarrow> a = b"
proof -
  assume a: "a < 10" and b: "b < 10" and eq: "digit_char a = digit_char b"
  from eq have "(of_char (char_of (48 + a)) :: nat) = of_char (char_of (48 + b))"
    by (simp add: digit_char_def)
  with a b show "a = b" by simp
qed

lemma digit_char_not_dash: "a < 10 \<Longrightarrow> digit_char a \<noteq> CHR ''-''"
proof
  assume a: "a < 10" and eq: "digit_char a = CHR ''-''"
  from eq have "(of_char (char_of (48 + a)) :: nat) = of_char CHR ''-''"
    by (simp add: digit_char_def)
  with a show False by simp
qed

lemma digits_not_Nil: "digits n \<noteq> []"
  by (subst digits.simps) simp

lemma digits_no_dash: "CHR ''-'' \<notin> set (digits n)"
proof (induction n rule: digits.induct)
  case (1 n)
  show ?case
  proof (cases "n < 10")
    case True
    then show ?thesis
      using digit_char_not_dash [of n] by (subst digits.simps) auto
  next
    case False
    with "1.IH" have "CHR ''-'' \<notin> set (digits (n div 10))" by simp
    moreover have "digit_char (n mod 10) \<noteq> CHR ''-''"
      by (rule digit_char_not_dash) simp
    ultimately show ?thesis
      using False by (subst digits.simps) auto
  qed
qed

lemma digits_inj: "digits n = digits m \<Longrightarrow> n = m"
proof (induction n arbitrary: m rule: digits.induct)
  case (1 n)
  show ?case
  proof (cases "n < 10")
    case n: True
    show ?thesis
    proof (cases "m < 10")
      case True
      with n "1.prems" have "digit_char n = digit_char m"
        by (simp add: digits.simps [of n] digits.simps [of m])
      with n True show ?thesis by (rule digit_char_inj)
    next
      case False
      with n "1.prems" have "digits (m div 10) = []"
        by (simp add: digits.simps [of n] digits.simps [of m])
      then show ?thesis by (simp add: digits_not_Nil)
    qed
  next
    case n: False
    show ?thesis
    proof (cases "m < 10")
      case True
      with n "1.prems" have "digits (n div 10) = []"
        by (simp add: digits.simps [of n] digits.simps [of m])
      then show ?thesis by (simp add: digits_not_Nil)
    next
      case False
      with n "1.prems" have eq: "digits (n div 10) = digits (m div 10)"
        and last: "digit_char (n mod 10) = digit_char (m mod 10)"
        by (simp_all add: digits.simps [of n] digits.simps [of m])
      from n eq have "n div 10 = m div 10" by (rule "1.IH")
      moreover from last have "n mod 10 = m mod 10"
        by (rule digit_char_inj [rotated 2]) simp_all
      ultimately show ?thesis by (metis div_mult_mod_eq)
    qed
  qed
qed

lemma takeWhile_until:
  "c \<notin> set a \<Longrightarrow> takeWhile (\<lambda>x. x \<noteq> c) (a @ c # b) = a"
  by (induction a) auto

lemma split_at_dash:
  assumes "a @ CHR ''-'' # b = a' @ CHR ''-'' # b'"
    and "CHR ''-'' \<notin> set a" and "CHR ''-'' \<notin> set a'"
  shows "a = a' \<and> b = b'"
proof -
  have "takeWhile (\<lambda>c. c \<noteq> CHR ''-'') (a @ CHR ''-'' # b) = a"
    using assms(2) by (rule takeWhile_until)
  moreover have "takeWhile (\<lambda>c. c \<noteq> CHR ''-'') (a' @ CHR ''-'' # b') = a'"
    using assms(3) by (rule takeWhile_until)
  ultimately have "a = a'" using assms(1) by simp
  with assms(1) show ?thesis by simp
qed

lemma id_inj:
  "Number_toString (int i) @ ''-'' @ Number_toString (int j)
     = Number_toString (int i') @ ''-'' @ Number_toString (int j')
   \<Longrightarrow> i = i' \<and> j = j'"
proof -
  assume "Number_toString (int i) @ ''-'' @ Number_toString (int j)
     = Number_toString (int i') @ ''-'' @ Number_toString (int j')"
  then have "digits i @ CHR ''-'' # digits j = digits i' @ CHR ''-'' # digits j'"
    by (simp add: Number_toString_def)
  then have "digits i = digits i' \<and> digits j = digits j'"
    by (rule split_at_dash) (simp_all add: digits_no_dash)
  then show ?thesis by (simp add: digits_inj)
qed

lemma concat_map_product:
  "concat (map (\<lambda>i. map (f i) ys) xs) = map (\<lambda>(i, j). f i j) (List.product xs ys)"
  by (induction xs) (simp_all add: o_def)

lemma generateGrid_closed:
  "concat (generateGrid now offset random rows cols)
     = map (\<lambda>(i, j). \<lparr>id_cell = Number_toString (int i) @ ''-'' @ Number_toString (int j),
                       timestamp = generateRandomDate (startOfDay offset (new_Date (Num now)))
                                     (random (2 * (i * nat cols + j)))
                                     (random (2 * (i * nat cols + j) + 1))\<rparr>)
           (List.product [0..<nat rows] [0..<nat cols])"
  by (simp add: generateGrid_def row_loop_closed concat_map_product)

lemma generateGrid_length:
  "length (concat (generateGrid now offset random rows cols)) = nat rows * nat cols"
  by (simp add: generateGrid_closed)

lemma generateGrid_ids:
  "distinct (map id_cell (concat (generateGrid now offset random rows cols)))"
proof -
  have "map id_cell (concat (generateGrid now offset random rows cols))
      = map (\<lambda>(i, j). Number_toString (int i) @ ''-'' @ Number_toString (int j))
          (List.product [0..<nat rows] [0..<nat cols])"
    by (simp add: generateGrid_closed o_def split_def)
  moreover have "distinct (List.product [0..<nat rows] [0..<nat cols])"
    by (simp add: distinct_product)
  moreover have "inj_on (\<lambda>(i, j). Number_toString (int i) @ ''-'' @ Number_toString (int j))
      (set (List.product [0..<nat rows] [0..<nat cols]))"
    by (rule inj_onI) (auto dest: id_inj [simplified])
  ultimately show ?thesis by (simp add: distinct_map)
qed

lemma floor_draw:
  fixes r :: real
  assumes "0 \<le> r" and "r < 1" and "0 < n"
  shows "0 \<le> \<lfloor>r * of_int n\<rfloor> \<and> \<lfloor>r * of_int n\<rfloor> \<le> n - 1"
proof -
  from assms have "0 \<le> r * of_int n" by simp
  then have lo: "0 \<le> \<lfloor>r * of_int n\<rfloor>" by simp
  from assms have "r * of_int n < 1 * of_int n"
    by (intro mult_strict_right_mono) simp_all
  then have "\<lfloor>r * of_int n\<rfloor> < n" by (simp add: floor_less_iff)
  with lo show ?thesis by simp
qed

lemma generateRandomDate_bounds:
  assumes r1: "0 \<le> r1" "r1 < 1" and r2: "0 \<le> r2" "r2 < 1"
    and lo: "- MAX_TIME \<le> b" and hi: "b + 365 * msPerDay \<le> MAX_TIME"
  shows "case generateRandomDate (Date b) r1 r2 of
           Date t \<Rightarrow> b \<le> t \<and> t < b + 365 * msPerDay
         | InvalidDate \<Rightarrow> False"
proof -
  let ?d = "\<lfloor>r1 * 365\<rfloor>" and ?m = "\<lfloor>r2 * 1440\<rfloor>"
  from floor_draw [OF r1, of 365] have d: "0 \<le> ?d" "?d \<le> 364" by simp_all
  from floor_draw [OF r2, of 1440] have m: "0 \<le> ?m" "?m \<le> 1439" by simp_all
  from d lo hi have "\<bar>b + ?d * msPerDay\<bar> \<le> MAX_TIME"
    unfolding msPerDay_def MAX_TIME_def by linarith
  then have days: "addDays (Date b) ?d = Date (b + ?d * msPerDay)"
    by simp
  from d m lo hi have "\<bar>b + ?d * msPerDay + ?m * 60000\<bar> \<le> MAX_TIME"
    unfolding msPerDay_def MAX_TIME_def by linarith
  then have "addMinutes (Date (b + ?d * msPerDay)) ?m = Date (b + ?d * msPerDay + ?m * 60000)"
    by simp
  with days have "generateRandomDate (Date b) r1 r2 = Date (b + ?d * msPerDay + ?m * 60000)"
    by (simp add: generateRandomDate_def Let_def)
  moreover from d m have "b \<le> b + ?d * msPerDay + ?m * 60000"
    unfolding msPerDay_def by linarith
  moreover from d m have "b + ?d * msPerDay + ?m * 60000 < b + 365 * msPerDay"
    unfolding msPerDay_def by linarith
  ultimately show ?thesis by simp
qed

lemma startOfDay_baseline:
  assumes "\<bar>now\<bar> + 365 * msPerDay \<le> MAX_TIME"
  shows "startOfDay offset (new_Date (Num now)) = Date (now - (now + offset) mod msPerDay)
    \<and> (now - (now + offset) mod msPerDay + offset) mod msPerDay = 0
    \<and> now - (now + offset) mod msPerDay \<le> now
    \<and> now < now - (now + offset) mod msPerDay + msPerDay
    \<and> - MAX_TIME \<le> now - (now + offset) mod msPerDay
    \<and> now - (now + offset) mod msPerDay + 365 * msPerDay \<le> MAX_TIME"
proof -
  let ?r = "(now + offset) mod msPerDay"
  have r: "0 \<le> ?r" "?r < msPerDay"
    by (simp_all add: msPerDay_def)
  from assms have now: "\<bar>now\<bar> \<le> MAX_TIME"
    unfolding msPerDay_def by linarith
  from assms r have b: "\<bar>now - ?r\<bar> \<le> MAX_TIME"
    unfolding msPerDay_def MAX_TIME_def by linarith
  from now b have "startOfDay offset (new_Date (Num now)) = Date (now - ?r)"
    by simp
  moreover have "(now - ?r + offset) mod msPerDay = 0"
  proof -
    have "now - ?r + offset = (now + offset) - ?r" by simp
    then show ?thesis by (simp only: minus_mod_eq_mult_div) simp
  qed
  moreover from r have "now - ?r \<le> now" "now < now - ?r + msPerDay"
    by linarith+
  moreover from assms r have "- MAX_TIME \<le> now - ?r" "now - ?r + 365 * msPerDay \<le> MAX_TIME"
    unfolding msPerDay_def MAX_TIME_def by linarith+
  ultimately show ?thesis by blast
qed

text \<open>
  C8. For positive \<open>rows\<close> and \<open>cols\<close> the generated grid holds exactly
  \<open>rows * cols\<close> cells, and no two cells of a grid share an id. When every draw is at
  least 0 and less than 1, and the year after \<open>now\<close> is within the range of dates,
  the baseline is the local midnight at or before \<open>now\<close>, less than a day back, and
  every timestamp is a valid date from the baseline up to, but not including, the
  baseline plus 365 days.
\<close>

theorem generateGrid_cells:
  "(0 < rows \<and> 0 < cols \<longrightarrow>
      length (concat (generateGrid now offset random rows cols)) = nat (rows * cols))
   \<and> distinct (map id_cell (concat (generateGrid now offset random rows cols)))
   \<and> ((\<forall>k. 0 \<le> random k \<and> random k < 1) \<and> \<bar>now\<bar> + 365 * msPerDay \<le> MAX_TIME \<longrightarrow>
        (\<exists>baseline.
            startOfDay offset (new_Date (Num now)) = Date baseline
            \<and> (baseline + offset) mod msPerDay = 0
            \<and> baseline \<le> now \<and> now < baseline + msPerDay
            \<and> (\<forall>cell \<in> set (concat (generateGrid now offset random rows cols)).
                  case timestamp cell of
                    Date t \<Rightarrow> baseline \<le> t \<and> t < baseline + 365 * msPerDay
                  | InvalidDate \<Rightarrow> False)))"
proof -
  have count: "0 < rows \<and> 0 < cols \<longrightarrow>
      length (concat (generateGrid now offset random rows cols)) = nat (rows * cols)"
    by (simp add: generateGrid_length nat_mult_distrib)
  have ids: "distinct (map id_cell (concat (generateGrid now offset random rows cols)))"
    by (rule generateGrid_ids)
  have times: "(\<forall>k. 0 \<le> random k \<and> random k < 1) \<and> \<bar>now\<bar> + 365 * msPerDay \<le> MAX_TIME \<longrightarrow>
        (\<exists>baseline.
            startOfDay offset (new_Date (Num now)) = Date baseline
            \<and> (baseline + offset) mod msPerDay = 0
            \<and> baseline \<le> now \<and> now < baseline + msPerDay
            \<and> (\<forall>cell \<in> set (concat (generateGrid now offset random rows cols)).
                  case timestamp cell of
                    Date t \<Rightarrow> baseline \<le> t \<and> t < baseline + 365 * msPerDay
                  | InvalidDate \<Rightarrow> False))"
  proof
    assume h: "(\<forall>k. 0 \<le> random k \<and> random k < 1) \<and> \<bar>now\<bar> + 365 * msPerDay \<le> MAX_TIME"
    let ?b = "now - (now + offset) mod msPerDay"
    from h have base: "startOfDay offset (new_Date (Num now)) = Date ?b"
      and midnight: "(?b + offset) mod msPerDay = 0"
      and day: "?b \<le> now" "now < ?b + msPerDay"
      and range: "- MAX_TIME \<le> ?b" "?b + 365 * msPerDay \<le> MAX_TIME"
      using startOfDay_baseline [of now offset] by blast+
    have every: "\<forall>cell \<in> set (concat (generateGrid now offset random rows cols)).
            case timestamp cell of
              Date t \<Rightarrow> ?b \<le> t \<and> t < ?b + 365 * msPerDay
            | InvalidDate \<Rightarrow> False"
    proof
      fix cell assume "cell \<in> set (concat (generateGrid now offset random rows cols))"
      then obtain i j where "timestamp cell
          = generateRandomDate (startOfDay offset (new_Date (Num now)))
              (random (2 * (i * nat cols + j))) (random (2 * (i * nat cols + j) + 1))"
        unfolding generateGrid_closed by (auto simp del: new_Date.simps)
      then obtain k where "timestamp cell = generateRandomDate (Date ?b) (random k) (random (k + 1))"
        unfolding base by blast
      moreover from h range
      have "case generateRandomDate (Date ?b) (random k) (random (k + 1)) of
              Date t \<Rightarrow> ?b \<le> t \<and> t < ?b + 365 * msPerDay
            | InvalidDate \<Rightarrow> False"
        by (intro generateRandomDate_bounds) simp_all
      ultimately show "case timestamp cell of
              Date t \<Rightarrow> ?b \<le> t \<and> t < ?b + 365 * msPerDay
            | InvalidDate \<Rightarrow> False"
        by simp
    qed
    show "\<exists>baseline.
            startOfDay offset (new_Date (Num now)) = Date baseline
            \<and> (baseline + offset) mod msPerDay = 0
            \<and> baseline \<le> now \<and> now < baseline + msPerDay
            \<and> (\<forall>cell \<in> set (concat (generateGrid now offset random rows cols)).
                  case timestamp cell of
                    Date t \<Rightarrow> baseline \<le> t \<and> t < baseline + 365 * msPerDay
                  | InvalidDate \<Rightarrow> False)"
    proof (intro exI conjI)
      show "startOfDay offset (new_Date (Num now)) = Date ?b" by (rule base)
      show "(?b + offset) mod msPerDay = 0" by (rule midnight)
      show "?b \<le> now" by (rule day(1))
      show "now < ?b + msPerDay" by (rule day(2))
      show "\<forall>cell \<in> set (concat (generateGrid now offset random rows cols)).
            case timestamp cell of
              Date t \<Rightarrow> ?b \<le> t \<and> t < ?b + 365 * msPerDay
            | InvalidDate \<Rightarrow> False" by (rule every)
    qed
  qed
  from count ids times show ?thesis by blast
qed

theorem generateGrid_cells_witness:
  "generateGrid 1700000000000 0 (\<lambda>k. if even k then 1 / 2 else 1 / 4) 1 2
     = [[\<lparr>id_cell = ''0-0'', timestamp = Date 1715666400000\<rparr>,
         \<lparr>id_cell = ''0-1'', timestamp = Date 1715666400000\<rparr>]]
   \<and> length (concat (generateGrid 1700000000000 0 (\<lambda>k. if even k then 1 / 2 else 1 / 4) 1 2)) = 2
   \<and> startOfDay 0 (new_Date (Num 1700000000000)) = Date 1699920000000
   \<and> (1699920000000::int) \<le> 1715666400000
   \<and> (1715666400000::int) < 1699920000000 + 365 * msPerDay"
proof -
  let ?random = "\<lambda>k::nat. if even k then 1 / 2 else 1 / 4 :: real"
  have zero: "digit_char 0 = CHR ''0''" and one: "digit_char (Suc 0) = CHR ''1''"
    by code_simp+
  have grid: "generateGrid 1700000000000 0 ?random 1 2
     = [[\<lparr>id_cell = ''0-0'', timestamp = Date 1715666400000\<rparr>,
         \<lparr>id_cell = ''0-1'', timestamp = Date 1715666400000\<rparr>]]"
    by (simp add: generateGrid_def row_loop.simps col_loop.simps generateRandomDate_def
          Number_toString_def digits.simps zero one msPerDay_def MAX_TIME_def)
  have base: "startOfDay 0 (new_Date (Num 1700000000000)) = Date 1699920000000"
    by (simp add: msPerDay_def MAX_TIME_def)
  have draws: "(\<forall>k. 0 \<le> ?random k \<and> ?random k < 1)
      \<and> \<bar>1700000000000\<bar> + 365 * msPerDay \<le> MAX_TIME"
    by (simp add: msPerDay_def MAX_TIME_def)
  have dims: "(0::int) < 1 \<and> (0::int) < 2"
    by simp
  from generateGrid_cells [of 1 2 1700000000000 0 ?random] dims
  have count: "length (concat (generateGrid 1700000000000 0 ?random 1 2)) = nat (1 * 2)"
    by blast
  from generateGrid_cells [of 1 2 1700000000000 0 ?random] draws
  obtain baseline where b: "startOfDay 0 (new_Date (Num 1700000000000)) = Date baseline"
    and cells: "\<forall>cell \<in> set (concat (generateGrid 1700000000000 0 ?random 1 2)).
                  case timestamp cell of
                    Date t \<Rightarrow> baseline \<le> t \<and> t < baseline + 365 * msPerDay
                  | InvalidDate \<Rightarrow> False"
    by blast
  from b base have "baseline = 1699920000000" by simp
  with cells grid have "(1699920000000::int) \<le> 1715666400000
      \<and> (1715666400000::int) < 1699920000000 + 365 * msPerDay"
    by simp
  with grid base count show ?thesis by simp
qed

section \<open>Properties of the statistics\<close>

lemma foldl_min2_Num:
  "\<forall>c \<in> set cs. timestamp c \<noteq> InvalidDate \<Longrightarrow>
   foldl min2 (Num a) (map (\<lambda>c. getTime (timestamp c)) cs)
     = Num (foldl min a (map (\<lambda>c. timeValue (timestamp c)) cs))"
proof (induction cs arbitrary: a)
  case Nil
  then show ?case by simp
next
  case (Cons c cs)
  then obtain t where t: "timestamp c = Date t" by (cases "timestamp c") auto
  have "min2 (Num a) (Num t) = Num (min a t)"
    by (simp add: min2_def min_def)
  with Cons t show ?case by simp
qed

lemma foldl_max2_Num:
  "\<forall>c \<in> set cs. timestamp c \<noteq> InvalidDate \<Longrightarrow>
   foldl max2 (Num a) (map (\<lambda>c. getTime (timestamp c)) cs)
     = Num (foldl max a (map (\<lambda>c. timeValue (timestamp c)) cs))"
proof (induction cs arbitrary: a)
  case Nil
  then show ?case by simp
next
  case (Cons c cs)
  then obtain t where t: "timestamp c = Date t" by (cases "timestamp c") auto
  have "max2 (Num a) (Num t) = Num (max a t)"
    by (simp add: max2_def max_def)
  with Cons t show ?case by simp
qed

lemma foldl_min_least: "foldl min (a::int) ts \<le> a \<and> (\<forall>t \<in> set ts. foldl min a ts \<le> t)"
proof (induction ts arbitrary: a)
  case Nil
  then show ?case by simp
next
  case (Cons t ts)
  from Cons [of "min a t"] show ?case by auto
qed

lemma foldl_min_member: "foldl min (a::int) ts \<in> insert a (set ts)"
proof (induction ts arbitrary: a)
  case Nil
  then show ?case by simp
next
  case (Cons t ts)
  from Cons [of "min a t"] show ?case by (auto simp add: min_def split: if_splits)
qed

lemma foldl_max_greatest: "a \<le> foldl max (a::int) ts \<and> (\<forall>t \<in> set ts. t \<le> foldl max a ts)"
proof (induction ts arbitrary: a)
  case Nil
  then show ?case by simp
next
  case (Cons t ts)
  from Cons [of "max a t"] show ?case by auto
qed

lemma foldl_max_member: "foldl max (a::int) ts \<in> insert a (set ts)"
proof (induction ts arbitrary: a)
  case Nil
  then show ?case by simp
next
  case (Cons t ts)
  from Cons [of "max a t"] show ?case by (auto simp add: max_def split: if_splits)
qed

lemma valid_cell:
  "(case timestamp c of Date t \<Rightarrow> \<bar>t\<bar> \<le> MAX_TIME | InvalidDate \<Rightarrow> False)
     = (timestamp c = Date (timeValue (timestamp c)) \<and> \<bar>timeValue (timestamp c)\<bar> \<le> MAX_TIME)"
  by (cases "timestamp c") simp_all

lemma Math_min_nonempty:
  assumes ne: "cells \<noteq> []"
    and valid: "\<forall>c \<in> set cells. case timestamp c of Date t \<Rightarrow> \<bar>t\<bar> \<le> MAX_TIME | InvalidDate \<Rightarrow> False"
  shows "\<exists>m. Math_min (map (\<lambda>c. getTime (timestamp c)) cells) = Num m
    \<and> \<bar>m\<bar> \<le> MAX_TIME
    \<and> Date m \<in> timestamp ` set cells
    \<and> (\<forall>c \<in> set cells. date_le (Date m) (timestamp c))"
proof -
  from ne obtain c cs where cells: "cells = c # cs" by (cases cells) auto
  let ?tv = "\<lambda>c. timeValue (timestamp c)"
  let ?m = "foldl min (?tv c) (map ?tv cs)"
  from valid have v: "\<forall>c \<in> set cells. timestamp c = Date (?tv c) \<and> \<bar>?tv c\<bar> \<le> MAX_TIME"
    by (simp add: valid_cell)
  then have ok: "\<forall>c \<in> set cells. timestamp c \<noteq> InvalidDate" by auto
  from v cells have c: "timestamp c = Date (?tv c)" by simp
  have "Math_min (map (\<lambda>c. getTime (timestamp c)) cells)
      = foldl min2 (min2 PosInf (Num (?tv c))) (map (\<lambda>c. getTime (timestamp c)) cs)"
    using c cells by (simp add: Math_min_def) (metis getTime.simps(1))
  also have "min2 PosInf (Num (?tv c)) = Num (?tv c)"
    by (simp add: min2_def)
  also have "foldl min2 (Num (?tv c)) (map (\<lambda>c. getTime (timestamp c)) cs) = Num ?m"
    using ok cells by (simp add: foldl_min2_Num)
  finally have mm: "Math_min (map (\<lambda>c. getTime (timestamp c)) cells) = Num ?m" .
  have "?m \<in> insert (?tv c) (set (map ?tv cs))"
    by (rule foldl_min_member)
  then have "?m \<in> ?tv ` set cells" using cells by auto
  then obtain c' where c': "c' \<in> set cells" "?m = ?tv c'" by auto
  with v have d: "timestamp c' = Date ?m" "\<bar>?m\<bar> \<le> MAX_TIME" by auto
  have least: "\<forall>x \<in> set cells. ?m \<le> ?tv x"
    using foldl_min_least [of "?tv c" "map ?tv cs"] cells by auto
  have "\<forall>x \<in> set cells. date_le (Date ?m) (timestamp x)"
  proof
    fix x assume x: "x \<in> set cells"
    with v have "timestamp x = Date (?tv x)" by simp
    moreover from least x have "?m \<le> ?tv x" by simp
    ultimately show "date_le (Date ?m) (timestamp x)" by (metis date_le.simps(1))
  qed
  moreover from c' d have "Date ?m \<in> timestamp ` set cells" by force
  ultimately show ?thesis using mm d by blast
qed

lemma Math_max_nonempty:
  assumes ne: "cells \<noteq> []"
    and valid: "\<forall>c \<in> set cells. case timestamp c of Date t \<Rightarrow> \<bar>t\<bar> \<le> MAX_TIME | InvalidDate \<Rightarrow> False"
  shows "\<exists>m. Math_max (map (\<lambda>c. getTime (timestamp c)) cells) = Num m
    \<and> \<bar>m\<bar> \<le> MAX_TIME
    \<and> Date m \<in> timestamp ` set cells
    \<and> (\<forall>c \<in> set cells. date_ge (Date m) (timestamp c))"
proof -
  from ne obtain c cs where cells: "cells = c # cs" by (cases cells) auto
  let ?tv = "\<lambda>c. timeValue (timestamp c)"
  let ?m = "foldl max (?tv c) (map ?tv cs)"
  from valid have v: "\<forall>c \<in> set cells. timestamp c = Date (?tv c) \<and> \<bar>?tv c\<bar> \<le> MAX_TIME"
    by (simp add: valid_cell)
  then have ok: "\<forall>c \<in> set cells. timestamp c \<noteq> InvalidDate" by auto
  from v cells have c: "timestamp c = Date (?tv c)" by simp
  have "Math_max (map (\<lambda>c. getTime (timestamp c)) cells)
      = foldl max2 (max2 NegInf (Num (?tv c))) (map (\<lambda>c. getTime (timestamp c)) cs)"
    using c cells by (simp add: Math_max_def) (metis getTime.simps(1))
  also have "max2 NegInf (Num (?tv c)) = Num (?tv c)"
    by (simp add: max2_def)
  also have "foldl max2 (Num (?tv c)) (map (\<lambda>c. getTime (timestamp c)) cs) = Num ?m"
    using ok cells by (simp add: foldl_max2_Num)
  finally have mm: "Math_max (map (\<lambda>c. getTime (timestamp c)) cells) = Num ?m" .
  have "?m \<in> insert (?tv c) (set (map ?tv cs))"
    by (rule foldl_max_member)
  then have "?m \<in> ?tv ` set cells" using cells by auto
  then obtain c' where c': "c' \<in> set cells" "?m = ?tv c'" by auto
  with v have d: "timestamp c' = Date ?m" "\<bar>?m\<bar> \<le> MAX_TIME" by auto
  have greatest: "\<forall>x \<in> set cells. ?tv x \<le> ?m"
    using foldl_max_greatest [of "?tv c" "map ?tv cs"] cells by auto
  have "\<forall>x \<in> set cells. date_ge (Date ?m) (timestamp x)"
  proof
    fix x assume x: "x \<in> set cells"
    with v have "timestamp x = Date (?tv x)" by simp
    moreover from greatest x have "?tv x \<le> ?m" by simp
    ultimately show "date_ge (Date ?m) (timestamp x)" by (metis date_ge.simps(1))
  qed
  moreover from c' d have "Date ?m \<in> timestamp ` set cells" by force
  ultimately show ?thesis using mm d by blast
qed

text \<open>
  With at least one cell and only valid dates, \<open>StatsSection\<close> returns the three
  texts: the number of cells, and the formatted earliest and latest dates, where the
  earliest is the timestamp of a cell and at or before every timestamp and the latest is
  the timestamp of a cell and at or after every timestamp.
\<close>

lemma StatsSection_nonempty:
  assumes ne: "cells \<noteq> []"
    and valid: "\<forall>c \<in> set cells. case timestamp c of Date t \<Rightarrow> \<bar>t\<bar> \<le> MAX_TIME | InvalidDate \<Rightarrow> False"
  shows "\<exists>lo hi.
     StatsSection text cells
       = Inr \<lparr>totalCells = Number_toString (int (length cells)),
              earliestDate = text lo ''yyyy-MM-dd HH:mm'',
              latestDate = text hi ''yyyy-MM-dd HH:mm''\<rparr>
     \<and> Date lo \<in> timestamp ` set cells
     \<and> (\<forall>c \<in> set cells. date_le (Date lo) (timestamp c))
     \<and> Date hi \<in> timestamp ` set cells
     \<and> (\<forall>c \<in> set cells. date_ge (Date hi) (timestamp c))"
proof -
  from Math_min_nonempty [OF ne valid] obtain lo
    where lo: "Math_min (map (\<lambda>c. getTime (timestamp c)) cells) = Num lo" "\<bar>lo\<bar> \<le> MAX_TIME"
      "Date lo \<in> timestamp ` set cells" "\<forall>c \<in> set cells. date_le (Date lo) (timestamp c)"
    by blast
  from Math_max_nonempty [OF ne valid] obtain hi
    where hi: "Math_max (map (\<lambda>c. getTime (timestamp c)) cells) = Num hi" "\<bar>hi\<bar> \<le> MAX_TIME"
      "Date hi \<in> timestamp ` set cells" "\<forall>c \<in> set cells. date_ge (Date hi) (timestamp c)"
    by blast
  from lo(1,2) hi(1,2) have "StatsSection text cells
       = Inr \<lparr>totalCells = Number_toString (int (length cells)),
              earliestDate = text lo ''yyyy-MM-dd HH:mm'',
              latestDate = text hi ''yyyy-MM-dd HH:mm''\<rparr>"
    by (simp add: StatsSection_def Let_def format_def)
  with lo(3,4) hi(3,4) show ?thesis by blast
qed

text \<open>
  C9 fails on the code when there is no cell. \<open>Math.min\<close> gives \<open>+\<infinity>\<close> and
  \<open>Math.max\<close> gives \<open>-\<infinity>\<close>, and the two dates made from them are invalid; these
  are values. But \<open>StatsSection\<close> then formats the earliest date, and that raises a
  \<open>RangeError\<close>. The first render is such a call: the grid is still empty, so the
  visible cells are empty.
\<close>

theorem StatsSection_empty_raises:
  "Math_min [] = PosInf
   \<and> Math_max [] = NegInf
   \<and> new_Date (Math_min []) = InvalidDate
   \<and> new_Date (Math_max []) = InvalidDate
   \<and> StatsSection text [] = Inl RangeError
   \<and> visibleCells (initialState []) = []
   \<and> StatsSection text (visibleCells (initialState [])) = Inl RangeError"
  by (simp add: StatsSection_def Let_def format_def Math_min_def Math_max_def
        visibleCells_def initialState_def slice_def)

section \<open>Properties of filtering\<close>

lemma startDate_empty: "startDate parse [] = Date 0"
  by (simp add: startDate_def MAX_TIME_def)

lemma endDate_empty: "endDate parse [] = Date MAX_TIME"
  by (simp add: endDate_def MAX_TIME_def)

lemma fullGrid_handleSortToggle: "fullGrid (handleSortToggle st) = fullGrid st"
  by (simp add: handleSortToggle_def Let_def)

lemma fullGrid_toggles: "fullGrid ((handleSortToggle ^^ n) st) = fullGrid st"
  by (induction n) (simp_all add: fullGrid_handleSortToggle)

lemma generateGrid_timestamps:
  assumes draws: "\<forall>k. 0 \<le> random k \<and> random k < 1"
    and range: "\<bar>now\<bar> + 365 * msPerDay \<le> MAX_TIME"
    and cell: "cell \<in> set (concat (generateGrid now offset random rows cols))"
  shows "case timestamp cell of
           Date t \<Rightarrow> now - (now + offset) mod msPerDay \<le> t
                     \<and> t < now - (now + offset) mod msPerDay + 365 * msPerDay
         | InvalidDate \<Rightarrow> False"
proof -
  let ?b = "now - (now + offset) mod msPerDay"
  from range have base: "startOfDay offset (new_Date (Num now)) = Date ?b"
    and lo: "- MAX_TIME \<le> ?b" and hi: "?b + 365 * msPerDay \<le> MAX_TIME"
    using startOfDay_baseline [of now offset] by blast+
  from cell obtain i j where "timestamp cell
      = generateRandomDate (startOfDay offset (new_Date (Num now)))
          (random (2 * (i * nat cols + j))) (random (2 * (i * nat cols + j) + 1))"
    unfolding generateGrid_closed by (auto simp del: new_Date.simps)
  then obtain k where "timestamp cell = generateRandomDate (Date ?b) (random k) (random (k + 1))"
    unfolding base by blast
  moreover from draws lo hi
  have "case generateRandomDate (Date ?b) (random k) (random (k + 1)) of
          Date t \<Rightarrow> ?b \<le> t \<and> t < ?b + 365 * msPerDay
        | InvalidDate \<Rightarrow> False"
    by (intro generateRandomDate_bounds) simp_all
  ultimately show ?thesis by simp
qed

lemma generated_after_epoch:
  assumes draws: "\<forall>k. 0 \<le> random k \<and> random k < 1"
    and clock: "msPerDay \<le> now" and range: "now + 365 * msPerDay \<le> MAX_TIME"
    and cell: "cell \<in> set (concat (generateGrid now offset random rows cols))"
  shows "\<exists>t. timestamp cell = Date t \<and> 0 \<le> t \<and> t \<le> MAX_TIME"
proof -
  let ?r = "(now + offset) mod msPerDay"
  have r: "0 \<le> ?r" "?r < msPerDay"
    by (simp_all add: msPerDay_def)
  from clock have "0 \<le> now" unfolding msPerDay_def by linarith
  with range have "\<bar>now\<bar> + 365 * msPerDay \<le> MAX_TIME" by simp
  with draws have "case timestamp cell of
           Date t \<Rightarrow> now - ?r \<le> t \<and> t < now - ?r + 365 * msPerDay
         | InvalidDate \<Rightarrow> False"
    using cell by (rule generateGrid_timestamps)
  then obtain t where t: "timestamp cell = Date t" "now - ?r \<le> t" "t < now - ?r + 365 * msPerDay"
    by (cases "timestamp cell") auto
  from t(2) r clock have "0 \<le> t" by linarith
  moreover from t(3) r range have "t \<le> MAX_TIME" by linarith
  ultimately show ?thesis using t(1) by blast
qed

text \<open>
  C1. On a generated grid, with draws at least 0 and less than 1 and a clock from one day
  after the epoch to one year before the last date, \<open>handleFilter\<close> keeps exactly the
  cells whose time value lies in the closed interval between the two bounds, in the
  grid's order, where an absent (empty) start stands for the smallest time value and an
  absent end for the largest. With both absent the whole grid comes back, order kept.
  Every call sets \<open>page\<close> to 1.
\<close>

theorem handleFilter_closed_interval:
  "fullGrid st = generateGrid now offset random rows cols
   \<and> (\<forall>k. 0 \<le> random k \<and> random k < 1)
   \<and> msPerDay \<le> now \<and> now + 365 * msPerDay \<le> MAX_TIME \<longrightarrow>
     ((if start = [] then Date (- MAX_TIME) else parse start) = Date a
      \<and> (if end = [] then Date MAX_TIME else parse end) = Date b \<longrightarrow>
        filteredCells (handleFilter parse st start end)
          = filter (\<lambda>cell. case timestamp cell of
                             Date t \<Rightarrow> a \<le> t \<and> t \<le> b
                           | InvalidDate \<Rightarrow> False)
                   (flatCells st))
     \<and> filteredCells (handleFilter parse st [] []) = flatCells st
     \<and> page (handleFilter parse st start end) = 1"
proof
  assume h: "fullGrid st = generateGrid now offset random rows cols
   \<and> (\<forall>k. 0 \<le> random k \<and> random k < 1)
   \<and> msPerDay \<le> now \<and> now + 365 * msPerDay \<le> MAX_TIME"
  have cells: "\<forall>cell \<in> set (flatCells st). \<exists>t. timestamp cell = Date t \<and> 0 \<le> t \<and> t \<le> MAX_TIME"
  proof
    fix cell assume "cell \<in> set (flatCells st)"
    with h have "cell \<in> set (concat (generateGrid now offset random rows cols))"
      by (simp add: flatCells_def)
    with h show "\<exists>t. timestamp cell = Date t \<and> 0 \<le> t \<and> t \<le> MAX_TIME"
      by (intro generated_after_epoch [of random now]) simp_all
  qed
  have bounded: "(if start = [] then Date (- MAX_TIME) else parse start) = Date a
      \<and> (if end = [] then Date MAX_TIME else parse end) = Date b \<longrightarrow>
        filteredCells (handleFilter parse st start end)
          = filter (\<lambda>cell. case timestamp cell of
                             Date t \<Rightarrow> a \<le> t \<and> t \<le> b
                           | InvalidDate \<Rightarrow> False)
                   (flatCells st)"
  proof
    assume ab: "(if start = [] then Date (- MAX_TIME) else parse start) = Date a
      \<and> (if end = [] then Date MAX_TIME else parse end) = Date b"
    have "filter (\<lambda>cell. date_ge (timestamp cell) (startDate parse start)
                        \<and> date_le (timestamp cell) (endDate parse end)) (flatCells st)
        = filter (\<lambda>cell. case timestamp cell of
                             Date t \<Rightarrow> a \<le> t \<and> t \<le> b
                           | InvalidDate \<Rightarrow> False) (flatCells st)"
    proof (rule filter_cong [OF refl])
      fix cell assume "cell \<in> set (flatCells st)"
      with cells obtain t where t: "timestamp cell = Date t" "0 \<le> t" "t \<le> MAX_TIME"
        by blast
      from ab t(2) have "date_ge (Date t) (startDate parse start) = (a \<le> t)"
        by (cases "start = []") (auto simp add: startDate_def MAX_TIME_def)
      moreover from ab t(3) have "date_le (Date t) (endDate parse end) = (t \<le> b)"
        by (cases "end = []") (auto simp add: endDate_def MAX_TIME_def)
      ultimately show "(date_ge (timestamp cell) (startDate parse start)
                        \<and> date_le (timestamp cell) (endDate parse end))
          = (case timestamp cell of Date t \<Rightarrow> a \<le> t \<and> t \<le> b | InvalidDate \<Rightarrow> False)"
        using t(1) by simp
    qed
    then show "filteredCells (handleFilter parse st start end)
          = filter (\<lambda>cell. case timestamp cell of
                             Date t \<Rightarrow> a \<le> t \<and> t \<le> b
                           | InvalidDate \<Rightarrow> False)
                   (flatCells st)"
      by (simp add: handleFilter_def)
  qed
  have whole: "filteredCells (handleFilter parse st [] []) = flatCells st"
  proof -
    have "filter (\<lambda>cell. date_ge (timestamp cell) (Date 0)
                        \<and> date_le (timestamp cell) (Date MAX_TIME)) (flatCells st)
        = flatCells st"
    proof (rule filter_True)
      show "\<forall>cell \<in> set (flatCells st).
          date_ge (timestamp cell) (Date 0) \<and> date_le (timestamp cell) (Date MAX_TIME)"
      proof
        fix cell assume "cell \<in> set (flatCells st)"
        with cells obtain t where "timestamp cell = Date t" "0 \<le> t" "t \<le> MAX_TIME"
          by blast
        then show "date_ge (timestamp cell) (Date 0) \<and> date_le (timestamp cell) (Date MAX_TIME)"
          by simp
      qed
    qed
    then show ?thesis
      by (simp add: handleFilter_def startDate_empty endDate_empty)
  qed
  have first_page: "page (handleFilter parse st start end) = 1"
    by (simp add: handleFilter_def)
  from bounded whole first_page
  show "((if start = [] then Date (- MAX_TIME) else parse start) = Date a
      \<and> (if end = [] then Date MAX_TIME else parse end) = Date b \<longrightarrow>
        filteredCells (handleFilter parse st start end)
          = filter (\<lambda>cell. case timestamp cell of
                             Date t \<Rightarrow> a \<le> t \<and> t \<le> b
                           | InvalidDate \<Rightarrow> False)
                   (flatCells st))
     \<and> filteredCells (handleFilter parse st [] []) = flatCells st
     \<and> page (handleFilter parse st start end) = 1"
    by blast
qed

text \<open>
  A small generated grid for the examples: one row of two cells, generated at
  2023-11-14 22:13:20 UTC on a host in the UTC zone.
\<close>

lemma sample_grid:
  "generateGrid 1700000000000 0 (\<lambda>k. if k < 2 then 1 / 2 else 1 / 4) 1 2
     = [[\<lparr>id_cell = ''0-0'', timestamp = Date 1715688000000\<rparr>,
         \<lparr>id_cell = ''0-1'', timestamp = Date 1707804000000\<rparr>]]"
proof -
  have zero: "digit_char 0 = CHR ''0''" and one: "digit_char (Suc 0) = CHR ''1''"
    by code_simp+
  show ?thesis
    by (simp add: generateGrid_def row_loop.simps col_loop.simps generateRandomDate_def
          Number_toString_def digits.simps zero one msPerDay_def MAX_TIME_def)
qed

lemma sample_parse:
  "Date_parse 0 no_heuristics ''2024-03-01'' = Date 1709251200000"
  "Date_parse 0 no_heuristics ''abc'' = InvalidDate"
  by code_simp+

theorem handleFilter_closed_interval_witness:
  "filteredCells
     (handleFilter (Date_parse 0 no_heuristics)
        (initialState (generateGrid 1700000000000 0 (\<lambda>k. if k < 2 then 1 / 2 else 1 / 4) 1 2))
        [] ''2024-03-01'')
     = [\<lparr>id_cell = ''0-1'', timestamp = Date 1707804000000\<rparr>]
   \<and> filteredCells
     (handleFilter (Date_parse 0 no_heuristics)
        (initialState (generateGrid 1700000000000 0 (\<lambda>k. if k < 2 then 1 / 2 else 1 / 4) 1 2))
        [] [])
     = [\<lparr>id_cell = ''0-0'', timestamp = Date 1715688000000\<rparr>,
        \<lparr>id_cell = ''0-1'', timestamp = Date 1707804000000\<rparr>]"
proof -
  let ?random = "\<lambda>k::nat. if k < 2 then 1 / 2 else 1 / 4 :: real"
  let ?st = "initialState (generateGrid 1700000000000 0 ?random 1 2)"
  let ?parse = "Date_parse 0 no_heuristics"
  have generated: "fullGrid ?st = generateGrid 1700000000000 0 ?random 1 2
     \<and> (\<forall>k. 0 \<le> ?random k \<and> ?random k < 1)
     \<and> msPerDay \<le> 1700000000000 \<and> 1700000000000 + 365 * msPerDay \<le> MAX_TIME"
    by (simp add: initialState_def msPerDay_def MAX_TIME_def)
  have bounds: "(if [] = [] then Date (- MAX_TIME) else ?parse []) = Date (- MAX_TIME)
     \<and> (if ''2024-03-01'' = [] then Date MAX_TIME else ?parse ''2024-03-01'') = Date 1709251200000"
    by (simp add: sample_parse)
  from handleFilter_closed_interval
         [of ?st 1700000000000 0 ?random 1 2 "[]" ?parse "- MAX_TIME" "''2024-03-01''" 1709251200000]
       generated bounds
  have "filteredCells (handleFilter ?parse ?st [] ''2024-03-01'')
          = filter (\<lambda>cell. case timestamp cell of
                             Date t \<Rightarrow> - MAX_TIME \<le> t \<and> t \<le> 1709251200000
                           | InvalidDate \<Rightarrow> False)
                   (flatCells ?st)"
    and "filteredCells (handleFilter ?parse ?st [] []) = flatCells ?st"
    by blast+
  then show ?thesis
    by (simp add: flatCells_def initialState_def sample_grid MAX_TIME_def)
qed

text \<open>
  C4, as the code has it. An empty start text stands for \<open>new Date(0)\<close> and an empty end
  text for the largest time value. A text that is not empty and that the host cannot
  parse gives an invalid date as the bound; no cell compares against it, so the filtered
  set is empty. In every case \<open>handleFilter\<close> returns a state, with \<open>page\<close> 1 and the
  grid untouched.
\<close>

theorem handleFilter_text_bounds:
  "startDate parse [] = Date 0
   \<and> endDate parse [] = Date MAX_TIME
   \<and> ((start \<noteq> [] \<and> parse start = InvalidDate)
        \<or> (end \<noteq> [] \<and> parse end = InvalidDate) \<longrightarrow>
        filteredCells (handleFilter parse st start end) = [])
   \<and> page (handleFilter parse st start end) = 1
   \<and> fullGrid (handleFilter parse st start end) = fullGrid st"
proof -
  have unparsed: "(start \<noteq> [] \<and> parse start = InvalidDate)
        \<or> (end \<noteq> [] \<and> parse end = InvalidDate) \<longrightarrow>
        filteredCells (handleFilter parse st start end) = []"
    by (auto simp add: handleFilter_def startDate_def endDate_def date_ge_Invalid date_le_Invalid)
  have rest: "page (handleFilter parse st start end) = 1
      \<and> fullGrid (handleFilter parse st start end) = fullGrid st"
    by (simp add: handleFilter_def)
  from startDate_empty [of parse] endDate_empty [of parse] unparsed rest show ?thesis
    by blast
qed

theorem handleFilter_text_bounds_witness:
  "Date_parse 0 no_heuristics ''abc'' = InvalidDate
   \<and> filteredCells
       (handleFilter (Date_parse 0 no_heuristics)
          (initialState (generateGrid 1700000000000 0 (\<lambda>k. if k < 2 then 1 / 2 else 1 / 4) 1 2))
          ''abc'' []) = []"
  using handleFilter_text_bounds
    [of "Date_parse 0 no_heuristics" "''abc''" "[]"
        "initialState (generateGrid 1700000000000 0 (\<lambda>k. if k < 2 then 1 / 2 else 1 / 4) 1 2)"]
  by (simp add: sample_parse)

text \<open>
  C4 as stated fails: on a generated grid, with the start text \<open>abc\<close> the filter returns
  nothing, while with the start absent it returns both cells.
\<close>

theorem handleFilter_unparseable_counterexample:
  "Date_parse 0 no_heuristics ''abc'' = InvalidDate
   \<and> filteredCells
       (handleFilter (Date_parse 0 no_heuristics)
          (initialState (generateGrid 1700000000000 0 (\<lambda>k. if k < 2 then 1 / 2 else 1 / 4) 1 2))
          ''abc'' []) = []
   \<and> filteredCells
       (handleFilter (Date_parse 0 no_heuristics)
          (initialState (generateGrid 1700000000000 0 (\<lambda>k. if k < 2 then 1 / 2 else 1 / 4) 1 2))
          [] [])
      = [\<lparr>id_cell = ''0-0'', timestamp = Date 1715688000000\<rparr>,
         \<lparr>id_cell = ''0-1'', timestamp = Date 1707804000000\<rparr>]"
  by (simp add: sample_parse sample_grid handleFilter_def initialState_def flatCells_def
        startDate_def endDate_def MAX_TIME_def)

text \<open>
  C10. \<open>handleFilter\<close> computes from the flattened grid, never from the current filtered
  set: after any number of sort toggles, and whatever the filtered set, the page and the
  sort flag are, its result is the matching cells of the grid in the grid's order.
\<close>

theorem handleFilter_recomputes_from_dataset:
  "filteredCells (handleFilter parse ((handleSortToggle ^^ n) st) start end)
     = filter (\<lambda>cell. date_ge (timestamp cell) (startDate parse start)
                     \<and> date_le (timestamp cell) (endDate parse end))
              (concat (fullGrid st))
   \<and> filteredCells
       (handleFilter parse (st\<lparr>filteredCells := cells, page := p, sortAsc := b\<rparr>) start end)
     = filteredCells (handleFilter parse st start end)"
  by (simp add: handleFilter_def flatCells_def fullGrid_toggles)

end
